theory Spec2Isabelle
  imports Main "HOL-Library.Multiset" "HOL-Library.Sublist"
begin

section \<open>JavaScript numbers\<close>

text \<open>
  The durations, totals and Date time values of the tracker are JavaScript numbers.
  All of them are integers or \<open>NaN\<close>: \<open>Math.round\<close> and \<open>parseInt\<close> produce
  integers, and a \<open>Date\<close> holds a whole number of milliseconds or \<open>NaN\<close> (an
  Invalid Date).  Arithmetic with \<open>NaN\<close> gives \<open>NaN\<close>, and every comparison with
  \<open>NaN\<close> is false.
\<close>

datatype jsnum = NaN | Num int

fun js_add :: "jsnum \<Rightarrow> jsnum \<Rightarrow> jsnum" where
  "js_add (Num a) (Num b) = Num (a + b)"
| "js_add _ _ = NaN"

fun js_sub :: "jsnum \<Rightarrow> jsnum \<Rightarrow> jsnum" where
  "js_sub (Num a) (Num b) = Num (a - b)"
| "js_sub _ _ = NaN"

fun js_lt :: "jsnum \<Rightarrow> jsnum \<Rightarrow> bool" where
  "js_lt (Num a) (Num b) = (a < b)"
| "js_lt _ _ = False"

text \<open>
  \<open>Math.round(x / d)\<close> for an integer \<open>x\<close> and a positive integer constant \<open>d\<close>:
  \<open>Math.round\<close> rounds to the nearest integer, a tie towards plus infinity, which is
  \<open>floor (x / d + 1/2)\<close>.  The quotient is computed in double precision in the
  source; for the magnitudes of a time tracker (below \<open>2 ^ 53\<close>) the rounding of the
  quotient never crosses a boundary between two results.
\<close>

fun Math_round_div :: "jsnum \<Rightarrow> int \<Rightarrow> jsnum" where
  "Math_round_div (Num x) d = Num ((2 * x + d) div (2 * d))"
| "Math_round_div NaN d = NaN"

section \<open>Objects used as dictionaries\<close>

text \<open>
  The totals are plain objects (\<open>{}\<close>) used as dictionaries, so a key is looked up
  in the object and then in \<open>Object.prototype\<close>.  A value is a number, a value that
  every object inherits (\<open>Inherited k\<close>: the function \<open>Object.prototype[k]\<close>, or the
  prototype itself for \<open>__proto__\<close>), or the string that \<open>+\<close> builds when one of
  its operands is not a number (\<open>Cat a b\<close>: the text of \<open>a\<close> followed by the text
  of \<open>b\<close>).  Such a string always holds the text of an inherited value (the source
  text of a function, or \<open>[object Object]\<close>): it is not empty, so it is truthy, and
  it is no numeral, so it converts to the number \<open>NaN\<close>.
\<close>

datatype jsval = Number jsnum | Inherited string | Cat jsval jsval

text \<open>The names of the properties of \<open>Object.prototype\<close>.\<close>

definition inheritedKeys :: "string list" where
  "inheritedKeys =
     [''constructor'', ''__defineGetter__'', ''__defineSetter__'', ''hasOwnProperty'',
      ''__lookupGetter__'', ''__lookupSetter__'', ''isPrototypeOf'', ''propertyIsEnumerable'',
      ''toString'', ''valueOf'', ''__proto__'', ''toLocaleString'']"

text \<open>
  An object is the list of its own properties, in the order of their creation.  (An
  engine enumerates keys that are array indices first; this changes the order of the
  keys only.)
\<close>

type_synonym obj = "(string \<times> jsval) list"

text \<open>\<open>o[k]\<close>: the own property, else the inherited one, else \<open>undefined\<close>.\<close>

definition obj_get :: "obj \<Rightarrow> string \<Rightarrow> jsval option" where
  "obj_get ob k =
     (case map_of ob k of
        Some v \<Rightarrow> Some v
      | None \<Rightarrow> if k \<in> set inheritedKeys then Some (Inherited k) else None)"

text \<open>
  \<open>v || 0\<close>: \<open>undefined\<close>, \<open>NaN\<close> and \<open>0\<close> are falsy and give \<open>0\<close>; any other
  number, an inherited function or object and a string of the kind above give
  themselves.
\<close>

fun or_zero :: "jsval option \<Rightarrow> jsval" where
  "or_zero None = Number (Num 0)"
| "or_zero (Some (Number NaN)) = Number (Num 0)"
| "or_zero (Some v) = v"

text \<open>
  \<open>a + b\<close>: the sum of two numbers; with an operand that is not a number, the
  concatenation of the texts of the two.
\<close>

fun js_plus :: "jsval \<Rightarrow> jsval \<Rightarrow> jsval" where
  "js_plus (Number a) (Number b) = Number (js_add a b)"
| "js_plus a b = Cat a b"

text \<open>The number a value converts to in \<open>total / 7\<close>.\<close>

fun to_number :: "jsval \<Rightarrow> jsnum" where
  "to_number (Number n) = n"
| "to_number _ = NaN"

text \<open>
  \<open>o[k] = v\<close>: an existing own property keeps its place, a new one goes last.  The
  key \<open>__proto__\<close> is the inherited accessor: its setter ignores a value that is
  neither an object nor \<open>null\<close>, as every value here is, and no own property is
  made.
\<close>

fun put :: "string \<Rightarrow> jsval \<Rightarrow> obj \<Rightarrow> obj" where
  "put k v [] = [(k, v)]"
| "put k v ((k', v') # ps) =
     (if k' = k then (k, v) # ps else (k', v') # put k v ps)"

definition obj_set :: "string \<Rightarrow> jsval \<Rightarrow> obj \<Rightarrow> obj" where
  "obj_set k v ob = (if k = ''__proto__'' then ob else put k v ob)"

text \<open>\<open>o[k] = (o[k] || 0) + v\<close>\<close>

definition add_to :: "obj \<Rightarrow> string \<Rightarrow> jsval \<Rightarrow> obj" where
  "add_to ob k v = obj_set k (js_plus (or_zero (obj_get ob k)) v) ob"

section \<open>Dates\<close>

text \<open>
  A \<open>Date\<close> is its time value: milliseconds since the epoch in UTC, or \<open>NaN\<close>.
  The day arithmetic follows the ECMAScript definitions (\<open>Day\<close>, \<open>DayFromYear\<close>,
  \<open>MakeDay\<close>, \<open>TimeClip\<close>).
\<close>

definition msPerDay :: int where
  "msPerDay = 86400000"

definition Day :: "int \<Rightarrow> int" where
  "Day t = t div msPerDay"

definition DayFromYear :: "int \<Rightarrow> int" where
  "DayFromYear y =
     365 * (y - 1970) + (y - 1969) div 4 - (y - 1901) div 100 + (y - 1601) div 400"

definition InLeapYear :: "int \<Rightarrow> bool" where
  "InLeapYear y = (y mod 4 = 0 \<and> (y mod 100 \<noteq> 0 \<or> y mod 400 = 0))"

text \<open>Day within the year of the first day of month \<open>m\<close> (January is 0).\<close>

definition monthStart :: "bool \<Rightarrow> int \<Rightarrow> int" where
  "monthStart leap m =
     (if m = 0 then 0 else if m = 1 then 31
      else (if leap then 1 else 0) +
        (if m = 2 then 59 else if m = 3 then 90 else if m = 4 then 120
         else if m = 5 then 151 else if m = 6 then 181 else if m = 7 then 212
         else if m = 8 then 243 else if m = 9 then 273 else if m = 10 then 304
         else 334))"

definition MakeDay :: "int \<Rightarrow> int \<Rightarrow> int \<Rightarrow> int" where
  "MakeDay y m dt = DayFromYear y + monthStart (InLeapYear y) m + dt - 1"

definition TimeClip :: "int \<Rightarrow> jsnum" where
  "TimeClip t = (if \<bar>t\<bar> \<le> 8640000000000000 then Num t else NaN)"

subsection \<open>The engine: parsing a date and the local time zone\<close>

text \<open>
  What \<open>new Date(s)\<close> makes of a string, and the offset of local time from UTC, are
  not in the sources: they belong to the JavaScript engine and to the time zone of
  the machine.  They are parameters here.  \<open>Date_parse eng s\<close> is the time value of
  \<open>new Date(s)\<close>, \<open>NaN\<close> for an Invalid Date.  \<open>LocalTZA_utc eng t\<close> is the offset
  of local time, in milliseconds, at the instant \<open>t\<close> (\<open>LocalTZA(t, true)\<close> of the
  standard), and \<open>LocalTZA_local eng t\<close> the offset with which the local time \<open>t\<close>
  is read (\<open>LocalTZA(t, false)\<close>); the two change where daylight-saving time begins
  and ends.
\<close>

record engine =
  Date_parse :: "string \<Rightarrow> jsnum"
  LocalTZA_utc :: "int \<Rightarrow> int"
  LocalTZA_local :: "int \<Rightarrow> int"

definition LocalTime :: "engine \<Rightarrow> int \<Rightarrow> int" where
  "LocalTime eng t = t + LocalTZA_utc eng t"

definition UTC :: "engine \<Rightarrow> int \<Rightarrow> int" where
  "UTC eng t = t - LocalTZA_local eng t"

text \<open>
  \<open>d.setDate(d.getDate() + k)\<close>: the date is rebuilt in local time from
  \<open>MakeDay(year, month, date + k)\<close> and the unchanged time within the day, and
  turned back into UTC.  As \<open>MakeDay(year, month, dt)\<close> is the day number of the first
  of the month plus \<open>dt - 1\<close>, and \<open>getDate()\<close> is the local day number minus that
  of the first of the month plus 1, the new local time is the old one plus \<open>k\<close> days.
  The time value moves by \<open>k\<close> times 24 hours only if the offset is the same at both
  ends.  On an Invalid Date it stays invalid.
\<close>

definition setDate_plus :: "engine \<Rightarrow> jsnum \<Rightarrow> int \<Rightarrow> jsnum" where
  "setDate_plus eng d k =
     (case d of
        NaN \<Rightarrow> NaN
      | Num t \<Rightarrow> TimeClip (UTC eng (LocalTime eng t + k * msPerDay)))"

subsection \<open>The date-time string format\<close>

text \<open>
  The tracker builds its strings as \<open>`${date}T${time}`\<close>, where the date comes from a
  date input (\<open>YYYY-MM-DD\<close>) and the time from a time input (\<open>HH:mm\<close>, with
  \<open>:ss\<close> and \<open>.sss\<close> when the control carries seconds).  These are forms of the
  ECMAScript date-time string format without a UTC offset, which every engine reads
  as local time; \<open>parseDate\<close> and \<open>parseTimeOfDay\<close> below recognise them (4-digit
  years) and give the day number and the milliseconds within the day.  A day of the
  month is accepted from 01 to 31, and \<open>MakeDay\<close> carries a day past the end of the
  month into the next one.  An engine reads more than these forms (a time with an
  offset suffix, fractions of other lengths, formats of its own); what it makes of
  any other string is left to \<open>Date_parse\<close>.
\<close>

definition digit :: "char \<Rightarrow> int option" where
  "digit c = (let n = (of_char c :: nat) in
     if 48 \<le> n \<and> n \<le> 57 then Some (int n - 48) else None)"

fun digits :: "int \<Rightarrow> string \<Rightarrow> int option" where
  "digits acc [] = Some acc"
| "digits acc (c # cs) =
     (case digit c of None \<Rightarrow> None | Some v \<Rightarrow> digits (10 * acc + v) cs)"

definition MakeTime :: "int option \<Rightarrow> int option \<Rightarrow> int option \<Rightarrow> int option \<Rightarrow> int option" where
  "MakeTime hh mm ss ms =
     (case (hh, mm, ss, ms) of
        (Some h, Some m, Some s, Some f) \<Rightarrow>
          if h \<le> 24 \<and> m \<le> 59 \<and> s \<le> 59 \<and> (h = 24 \<longrightarrow> m = 0 \<and> s = 0 \<and> f = 0)
          then Some (((h * 60 + m) * 60 + s) * 1000 + f) else None
      | _ \<Rightarrow> None)"

text \<open>The time of day in milliseconds: \<open>HH:mm\<close>, \<open>HH:mm:ss\<close> or \<open>HH:mm:ss.sss\<close>.\<close>

definition parseTimeOfDay :: "string \<Rightarrow> int option" where
  "parseTimeOfDay s =
     (case s of
        [h1, h2, c1, m1, m2] \<Rightarrow>
          if c1 = CHR '':'' then
            MakeTime (digits 0 [h1, h2]) (digits 0 [m1, m2]) (Some 0) (Some 0)
          else None
      | [h1, h2, c1, m1, m2, c2, s1, s2] \<Rightarrow>
          if c1 = CHR '':'' \<and> c2 = CHR '':'' then
            MakeTime (digits 0 [h1, h2]) (digits 0 [m1, m2]) (digits 0 [s1, s2]) (Some 0)
          else None
      | [h1, h2, c1, m1, m2, c2, s1, s2, c3, f1, f2, f3] \<Rightarrow>
          if c1 = CHR '':'' \<and> c2 = CHR '':'' \<and> c3 = CHR ''.'' then
            MakeTime (digits 0 [h1, h2]) (digits 0 [m1, m2]) (digits 0 [s1, s2])
              (digits 0 [f1, f2, f3])
          else None
      | _ \<Rightarrow> None)"

text \<open>The day number of a calendar date \<open>YYYY-MM-DD\<close>.\<close>

definition parseDate :: "string \<Rightarrow> int option" where
  "parseDate s =
     (case s of
        [y1, y2, y3, y4, c1, m1, m2, c2, d1, d2] \<Rightarrow>
          if c1 = CHR ''-'' \<and> c2 = CHR ''-'' then
            (case (digits 0 [y1, y2, y3, y4], digits 0 [m1, m2], digits 0 [d1, d2]) of
               (Some y, Some m, Some d) \<Rightarrow>
                 if 1 \<le> m \<and> m \<le> 12 \<and> 1 \<le> d \<and> d \<le> 31
                 then Some (MakeDay y (m - 1) d) else None
             | _ \<Rightarrow> None)
          else None
      | _ \<Rightarrow> None)"

text \<open>
  An engine reads the format as the standard says when every such date and time,
  joined by \<open>T\<close>, is the local time of that day and time of day.
\<close>

definition reads_standard :: "engine \<Rightarrow> bool" where
  "reads_standard eng \<longleftrightarrow>
     (\<forall>d t day ms. parseDate d = Some day \<and> parseTimeOfDay t = Some ms \<longrightarrow>
        Date_parse eng (d @ ''T'' @ t) = Num (UTC eng (day * msPerDay + ms)))"

text \<open>
  The zone keeps the offset \<open>c\<close> from the instant \<open>lo\<close> to the instant \<open>hi\<close>: no
  daylight-saving change falls between them.  An offset is less than a day.
\<close>

definition steady :: "engine \<Rightarrow> int \<Rightarrow> int \<Rightarrow> int \<Rightarrow> bool" where
  "steady eng c lo hi \<longleftrightarrow>
     \<bar>c\<bar> \<le> msPerDay \<and>
     (\<forall>t. lo \<le> t \<and> t \<le> hi \<longrightarrow> LocalTZA_utc eng t = c \<and> LocalTZA_local eng (t + c) = c)"

section \<open>Durations (\<open>calculateDuration\<close>, \<open>App.jsx\<close> and \<open>TimeTracker.jsx\<close>)\<close>

text \<open>
  The function reads the selected date of the component; it is a parameter here.
  The source has no \<open>throw\<close>, and neither \<open>new Date\<close> on a string nor the
  arithmetic on dates raises: the result is always a number, possibly \<open>NaN\<close>.
\<close>

definition calculateDuration :: "engine \<Rightarrow> string \<Rightarrow> string \<Rightarrow> string \<Rightarrow> jsnum" where
  "calculateDuration eng selectedDate start endTime =
     (let startDate = Date_parse eng (selectedDate @ ''T'' @ start);
          endDate = Date_parse eng (selectedDate @ ''T'' @ endTime);
          endDate = (if js_lt endDate startDate then setDate_plus eng endDate 1 else endDate)
      in Math_round_div (js_sub endDate startDate) (1000 * 60))"

section \<open>The local-storage tracker (\<open>App.jsx\<close>)\<close>

subsection \<open>Entries\<close>

text \<open>
  An entry as \<open>addEntry\<close> and the CSV import build it.  The field \<open>end\<close> of the
  source is \<open>endT\<close> here and \<open>id\<close> is \<open>entry_id\<close>.
\<close>

record entry =
  entry_id :: int
  date :: string
  start :: string
  endT :: string
  duration :: jsnum
  description :: string
  tag :: string


subsection \<open>Daily entries and totals\<close>

definition getEntriesForDate :: "entry list \<Rightarrow> string \<Rightarrow> entry list" where
  "getEntriesForDate entries d = filter (\<lambda>e. date e = d) entries"

definition getTotalsByTag :: "entry list \<Rightarrow> string \<Rightarrow> obj" where
  "getTotalsByTag entries d =
     (let dayEntries = getEntriesForDate entries d
      in foldl (\<lambda>totals e. add_to totals (tag e) (Number (duration e))) [] dayEntries)"

subsection \<open>Formatting a date\<close>

text \<open>
  \<open>toISOString().split('T')[0]\<close> is the UTC calendar date of a time value, as
  \<open>YYYY-MM-DD\<close> (a sign and six digits for a year outside 0 to 9999).  The year is
  found by counting whole cycles of 400, 100, 4 and 1 years from 1601, the month and
  the day of the month from the day within the year.  On an Invalid Date
  \<open>toISOString\<close> raises a \<open>RangeError\<close>.
\<close>

definition YearFromDay :: "int \<Rightarrow> int" where
  "YearFromDay d =
     (let n = d - DayFromYear 1601;
          q400 = n div 146097; r400 = n mod 146097;
          q100 = min (r400 div 36524) 3; r100 = r400 - q100 * 36524;
          q4 = r100 div 1461; r4 = r100 mod 1461;
          q1 = min (r4 div 365) 3
      in 1601 + 400 * q400 + 100 * q100 + 4 * q4 + q1)"

definition MonthFromDay :: "int \<Rightarrow> int" where
  "MonthFromDay d =
     (let y = YearFromDay d; w = d - DayFromYear y; leap = InLeapYear y
      in if w < monthStart leap 1 then 0 else if w < monthStart leap 2 then 1
         else if w < monthStart leap 3 then 2 else if w < monthStart leap 4 then 3
         else if w < monthStart leap 5 then 4 else if w < monthStart leap 6 then 5
         else if w < monthStart leap 7 then 6 else if w < monthStart leap 8 then 7
         else if w < monthStart leap 9 then 8 else if w < monthStart leap 10 then 9
         else if w < monthStart leap 11 then 10 else 11)"

definition DateFromDay :: "int \<Rightarrow> int" where
  "DateFromDay d =
     (let y = YearFromDay d
      in d - DayFromYear y - monthStart (InLeapYear y) (MonthFromDay d) + 1)"

definition digitChar :: "int \<Rightarrow> char" where
  "digitChar n = ''0123456789'' ! nat (n mod 10)"

definition pad2 :: "int \<Rightarrow> string" where
  "pad2 n = [digitChar (n div 10), digitChar n]"

definition padYear :: "int \<Rightarrow> string" where
  "padYear y =
     (if 0 \<le> y \<and> y \<le> 9999 then pad2 (y div 100) @ pad2 y
      else (if y < 0 then ''-'' else ''+'') @
        pad2 (\<bar>y\<bar> div 10000) @ pad2 (\<bar>y\<bar> div 100) @ pad2 \<bar>y\<bar>)"

definition isoDate :: "int \<Rightarrow> string" where
  "isoDate d =
     padYear (YearFromDay d) @ ''-'' @ pad2 (MonthFromDay d + 1) @ ''-'' @ pad2 (DateFromDay d)"

datatype error = RangeError

fun toISODate :: "jsnum \<Rightarrow> error + string" where
  "toISODate NaN = Inl RangeError"
| "toISODate (Num t) = Inr (isoDate (Day t))"

subsection \<open>Weekly averages\<close>

text \<open>
  \<open>getWeeklyAverages\<close> takes no argument: it reads the entries of the component
  and the clock (\<open>new Date()\<close>).  Both are parameters here, the clock as its time
  value \<open>now\<close>, which is never invalid.  Each date of the window is built from a
  copy of the clock reading, moved back in local time (\<open>setDate\<close>) and printed in
  UTC (\<open>toISOString\<close>); \<open>last7Days_from\<close> is the loop over \<open>i\<close>.
\<close>

fun last7Days_from :: "engine \<Rightarrow> int \<Rightarrow> int list \<Rightarrow> error + string list" where
  "last7Days_from eng now [] = Inr []"
| "last7Days_from eng now (i # is) =
     (case toISODate (setDate_plus eng (Num now) (- i)) of
        Inl err \<Rightarrow> Inl err
      | Inr d \<Rightarrow>
          (case last7Days_from eng now is of
             Inl err \<Rightarrow> Inl err
           | Inr ds \<Rightarrow> Inr (d # ds)))"

definition last7Days :: "engine \<Rightarrow> int \<Rightarrow> error + string list" where
  "last7Days eng now = last7Days_from eng now [6, 5, 4, 3, 2, 1, 0]"

definition getWeeklyAverages :: "engine \<Rightarrow> int \<Rightarrow> entry list \<Rightarrow> error + obj" where
  "getWeeklyAverages eng now entries =
     (case last7Days eng now of
        Inl err \<Rightarrow> Inl err
      | Inr days \<Rightarrow>
          (let weeklyTotals =
                 foldl (\<lambda>weeklyTotals d.
                          foldl (\<lambda>w (t, minutes). add_to w t minutes) weeklyTotals
                            (getTotalsByTag entries d))
                   [] days
           in Inr (foldl (\<lambda>averages (t, total).
                            obj_set t (Number (Math_round_div (to_number total) 7)) averages)
                     [] weeklyTotals)))"

subsection \<open>Adding an entry\<close>

text \<open>
  \<open>Array.prototype.sort\<close> with a comparator.  The sort of the standard is stable,
  and for a consistent comparator its result is determined: it is the one of the
  insertion sort below, which moves an element behind another only when the
  comparator is positive.  A comparator result of \<open>NaN\<close> counts as \<open>0\<close>.  For a
  comparator that is not consistent the standard leaves the order to the engine.
\<close>

fun insert_by :: "('a \<Rightarrow> 'a \<Rightarrow> jsnum) \<Rightarrow> 'a \<Rightarrow> 'a list \<Rightarrow> 'a list" where
  "insert_by cmp x [] = [x]"
| "insert_by cmp x (y # ys) =
     (if js_lt (Num 0) (cmp x y) then y # insert_by cmp x ys else x # y # ys)"

fun js_sort :: "('a \<Rightarrow> 'a \<Rightarrow> jsnum) \<Rightarrow> 'a list \<Rightarrow> 'a list" where
  "js_sort cmp [] = []"
| "js_sort cmp (x # xs) = insert_by cmp x (js_sort cmp xs)"

text \<open>The timestamp of an entry, \<open>new Date(`${a.date}T${a.start}`)\<close>, and the comparator.\<close>

definition entryTime :: "engine \<Rightarrow> entry \<Rightarrow> jsnum" where
  "entryTime eng a = Date_parse eng (date a @ ''T'' @ start a)"

definition byStart :: "engine \<Rightarrow> entry \<Rightarrow> entry \<Rightarrow> jsnum" where
  "byStart eng a b = js_sub (entryTime eng a) (entryTime eng b)"

text \<open>
  The state of the component that \<open>addEntry\<close> reads and writes: the entries, the
  selected date and the four form fields (the fields \<open>description\<close> and \<open>tag\<close> of
  the form are \<open>descriptionInput\<close> and \<open>tagInput\<close> here).  \<open>stamp\<close> is the value of
  \<open>Date.now()\<close>.  With an empty field among the four the function alerts and
  returns; the selected date is not among them.
\<close>

record app_state =
  entries :: "entry list"
  selectedDate :: string
  startTime :: string
  endTime :: string
  descriptionInput :: string
  tagInput :: string

datatype alert = PleaseFillInAllFields

definition addEntry :: "engine \<Rightarrow> int \<Rightarrow> app_state \<Rightarrow> alert + app_state" where
  "addEntry eng stamp st =
     (if startTime st = [] \<or> endTime st = [] \<or> descriptionInput st = [] \<or> tagInput st = []
      then Inl PleaseFillInAllFields
      else
        let dur = calculateDuration eng (selectedDate st) (startTime st) (endTime st);
            newEntry = \<lparr>entry_id = stamp, date = selectedDate st, start = startTime st,
              endT = endTime st, duration = dur, description = descriptionInput st,
              tag = tagInput st\<rparr>
        in Inr (st\<lparr>entries := js_sort (byStart eng) (entries st @ [newEntry]),
              startTime := [], endTime := [], descriptionInput := [], tagInput := []\<rparr>))"

section \<open>The database-backed tracker (\<open>TimeTracker.jsx\<close>)\<close>

text \<open>
  An entry as the database returns it, joined with its category (\<open>projects\<close>), which
  may be missing.  The entries come through \<open>lib/supabase\<close>, which is not part of the
  sources; \<open>start_time\<close> stands for the time value of \<open>new Date(entry.start_time)\<close>,
  \<open>NaN\<close> when the stored text is no date, and \<open>duration_minutes\<close> is \<open>None\<close> for
  \<open>null\<close>.  \<open>toISOString\<close> raises a \<open>RangeError\<close> on an Invalid Date, which ends the
  \<open>filter\<close> it is called in.
\<close>

record project =
  name :: "string option"

record db_entry =
  db_id :: string
  start_time :: jsnum
  duration_minutes :: "int option"
  db_description :: string
  projects :: "project option"

fun getEntriesForDate_db :: "db_entry list \<Rightarrow> string \<Rightarrow> error + db_entry list" where
  "getEntriesForDate_db [] d = Inr []"
| "getEntriesForDate_db (e # es) d =
     (case toISODate (start_time e) of
        Inl err \<Rightarrow> Inl err
      | Inr entryDate \<Rightarrow>
          (case getEntriesForDate_db es d of
             Inl err \<Rightarrow> Inl err
           | Inr r \<Rightarrow> Inr (if entryDate = d then e # r else r)))"

text \<open>\<open>entry.projects?.name || 'Unknown'\<close>: a missing category, a missing name and an empty name give the sentinel.\<close>

definition categoryName :: "db_entry \<Rightarrow> string" where
  "categoryName e =
     (case projects e of
        None \<Rightarrow> ''Unknown''
      | Some p \<Rightarrow> (case name p of
          None \<Rightarrow> ''Unknown''
        | Some n \<Rightarrow> if n = [] then ''Unknown'' else n))"

definition getTotalsByCategory :: "db_entry list \<Rightarrow> string \<Rightarrow> error + obj" where
  "getTotalsByCategory es d =
     (case getEntriesForDate_db es d of
        Inl err \<Rightarrow> Inl err
      | Inr dayEntries \<Rightarrow>
          Inr (foldl (\<lambda>totals e. add_to totals (categoryName e)
                       (or_zero (map_option (\<lambda>n. Number (Num n)) (duration_minutes e))))
                 [] dayEntries))"

text \<open>
  \<open>getWeeklyAverages\<close> of this tracker has the loops of the one of \<open>App.jsx\<close>,
  over \<open>getTotalsByCategory\<close>; a \<open>RangeError\<close> in the totals of a day ends the call.
\<close>

fun weeklyTotals_db :: "db_entry list \<Rightarrow> obj \<Rightarrow> string list \<Rightarrow> error + obj" where
  "weeklyTotals_db es weeklyTotals [] = Inr weeklyTotals"
| "weeklyTotals_db es weeklyTotals (d # ds) =
     (case getTotalsByCategory es d of
        Inl err \<Rightarrow> Inl err
      | Inr dayTotals \<Rightarrow>
          weeklyTotals_db es
            (foldl (\<lambda>w (t, minutes). add_to w t minutes) weeklyTotals dayTotals) ds)"

definition getWeeklyAverages_db :: "engine \<Rightarrow> int \<Rightarrow> db_entry list \<Rightarrow> error + obj" where
  "getWeeklyAverages_db eng now es =
     (case last7Days eng now of
        Inl err \<Rightarrow> Inl err
      | Inr days \<Rightarrow>
          (case weeklyTotals_db es [] days of
             Inl err \<Rightarrow> Inl err
           | Inr weeklyTotals \<Rightarrow>
               Inr (foldl (\<lambda>averages (t, total).
                             obj_set t (Number (Math_round_div (to_number total) 7)) averages)
                      [] weeklyTotals)))"

section \<open>The tracker with a backend (second unnamed source file)\<close>

text \<open>
  This variant takes its times as free text in the 12-hour format and checks them
  before it submits an entry; the durations are computed by the backend, which is
  not part of the sources.  \<open>validateTimeFormat\<close> tests the trimmed text against
  \<open>/^(1[0-2]|0?[1-9]):([0-5][0-9])\s?(AM|PM)$/i\<close>.  Strings are taken to be ASCII:
  the white space is the space and the control characters 9 to 13.
\<close>

definition isSpace :: "char \<Rightarrow> bool" where
  "isSpace c = (c = CHR '' '' \<or> (9 \<le> (of_char c :: nat) \<and> (of_char c :: nat) \<le> 13))"

definition trim :: "string \<Rightarrow> string" where
  "trim s = rev (dropWhile isSpace (rev (dropWhile isSpace s)))"

definition between :: "char \<Rightarrow> char \<Rightarrow> char \<Rightarrow> bool" where
  "between lo hi c = ((of_char lo :: nat) \<le> of_char c \<and> (of_char c :: nat) \<le> of_char hi)"

definition hourText :: "string \<Rightarrow> bool" where
  "hourText h =
     (case h of
        [d] \<Rightarrow> between CHR ''1'' CHR ''9'' d
      | [c, d] \<Rightarrow> (c = CHR ''1'' \<and> between CHR ''0'' CHR ''2'' d) \<or>
                  (c = CHR ''0'' \<and> between CHR ''1'' CHR ''9'' d)
      | _ \<Rightarrow> False)"

definition meridiem :: "char \<Rightarrow> char \<Rightarrow> bool" where
  "meridiem a b = ((a = CHR ''A'' \<or> a = CHR ''a'' \<or> a = CHR ''P'' \<or> a = CHR ''p'') \<and>
     (b = CHR ''M'' \<or> b = CHR ''m''))"

definition validateTimeFormat :: "string \<Rightarrow> bool" where
  "validateTimeFormat timeStr =
     (let s = trim timeStr;
          h = takeWhile (\<lambda>c. c \<noteq> CHR '':'') s;
          r = dropWhile (\<lambda>c. c \<noteq> CHR '':'') s
      in hourText h \<and>
         (case r of
            [c, m1, m2, a, b] \<Rightarrow>
              between CHR ''0'' CHR ''5'' m1 \<and> between CHR ''0'' CHR ''9'' m2 \<and> meridiem a b
          | [c, m1, m2, w, a, b] \<Rightarrow>
              between CHR ''0'' CHR ''5'' m1 \<and> between CHR ''0'' CHR ''9'' m2 \<and> isSpace w \<and>
              meridiem a b
          | _ \<Rightarrow> False))"

text \<open>
  The checks of \<open>handleSubmit\<close> on the two times of the form: a message for each
  time that fails, and the request to the backend only when there is none.
\<close>

definition formatMessage :: string where
  "formatMessage = ''Please enter time in format \"9:15 AM\" or \"2:30 PM\"''"

record new_errors =
  start_time_error :: "string option"
  end_time_error :: "string option"

datatype submission = Rejected new_errors | Posted string string

definition handleSubmit :: "string \<Rightarrow> string \<Rightarrow> submission" where
  "handleSubmit startText endText =
     (let newErrors = \<lparr>
            start_time_error = (if \<not> validateTimeFormat startText then Some formatMessage else None),
            end_time_error = (if \<not> validateTimeFormat endText then Some formatMessage else None)\<rparr>
      in if start_time_error newErrors \<noteq> None \<or> end_time_error newErrors \<noteq> None
         then Rejected newErrors else Posted startText endText)"

section \<open>Vocabulary of the properties\<close>

text \<open>
  The number behind a JavaScript number (\<open>NaN\<close> counts 0) and the minutes an
  object holds under a key of its own (0 when the key is missing).
\<close>

fun num_of :: "jsnum \<Rightarrow> int" where
  "num_of (Num n) = n"
| "num_of NaN = 0"

definition minutes_of :: "obj \<Rightarrow> string \<Rightarrow> int" where
  "minutes_of ob t = num_of (to_number (or_zero (map_of ob t)))"

text \<open>
  The inner loop of \<open>getWeeklyAverages\<close>: the totals of one day added to the
  totals of the week.
\<close>

definition add_day :: "obj \<Rightarrow> obj \<Rightarrow> obj" where
  "add_day w dayTotals = foldl (\<lambda>w (t, minutes). add_to w t minutes) w dayTotals"

section \<open>Sample engines and sample data\<close>

text \<open>
  An engine that reads the forms of the date-time format above and nothing else (a
  date alone is UTC, a date with a time is local time), in a time zone given by its
  two offsets.
\<close>

definition standard_parse :: "(int \<Rightarrow> int) \<Rightarrow> string \<Rightarrow> jsnum" where
  "standard_parse tza s =
     (let d = takeWhile (\<lambda>c. c \<noteq> CHR ''T'') s;
          r = dropWhile (\<lambda>c. c \<noteq> CHR ''T'') s
      in case parseDate d of
           None \<Rightarrow> NaN
         | Some day \<Rightarrow>
             (case r of
                [] \<Rightarrow> Num (day * msPerDay)
              | _ # t \<Rightarrow>
                  (case parseTimeOfDay t of
                     None \<Rightarrow> NaN
                   | Some ms \<Rightarrow> Num (day * msPerDay + ms - tza (day * msPerDay + ms)))))"

definition standard_engine :: "(int \<Rightarrow> int) \<Rightarrow> (int \<Rightarrow> int) \<Rightarrow> engine" where
  "standard_engine tza_utc tza_local =
     \<lparr>Date_parse = standard_parse tza_local, LocalTZA_utc = tza_utc, LocalTZA_local = tza_local\<rparr>"

text \<open>A zone without daylight-saving time, at UTC.\<close>

definition utc_engine :: engine where
  "utc_engine = standard_engine (\<lambda>t. 0) (\<lambda>t. 0)"

text \<open>
  New York in 2024: 5 hours behind UTC, and 4 hours behind from 2024-03-10 07:00 UTC
  (02:00 local time, when the clocks go to 03:00) to 2024-11-03 06:00 UTC (02:00 local
  time, when they go back to 01:00).  A local time that the change skips or repeats is
  read with the offset before the change, as the standard says: 02:30 on 2024-03-10
  is read 5 hours behind UTC.
\<close>

definition new_york_utc :: "int \<Rightarrow> int" where
  "new_york_utc t = (if 1710054000000 \<le> t \<and> t < 1730613600000 then - 14400000 else - 18000000)"

definition new_york_local :: "int \<Rightarrow> int" where
  "new_york_local t = (if 1710039600000 \<le> t \<and> t < 1730599200000 then - 14400000 else - 18000000)"

definition new_york_2024 :: engine where
  "new_york_2024 = standard_engine new_york_utc new_york_local"

text \<open>
  Entries of a week in January 2024, used where a property is run on a concrete
  input: a night's sleep that starts at 23:30 on the 5th and runs past midnight, a
  short walk on the 6th, and 140 minutes of work on the 5th in two entries.  The same
  day in the database-backed tracker: an entry without a category, one with a
  category, and one in progress whose category has an empty name.
\<close>

definition sample_entries :: "entry list" where
  "sample_entries =
     [\<lparr>entry_id = 1, date = ''2024-01-05'', start = ''23:30'', endT = ''00:15'',
        duration = Num 45, description = ''night'', tag = ''Sleep''\<rparr>,
      \<lparr>entry_id = 2, date = ''2024-01-06'', start = ''00:05'', endT = ''00:10'',
        duration = Num 5, description = ''walk'', tag = ''Transit''\<rparr>,
      \<lparr>entry_id = 3, date = ''2024-01-05'', start = ''08:00'', endT = ''09:00'',
        duration = Num 60, description = ''work'', tag = ''Productive''\<rparr>,
      \<lparr>entry_id = 4, date = ''2024-01-05'', start = ''10:00'', endT = ''11:20'',
        duration = Num 80, description = ''more work'', tag = ''Productive''\<rparr>]"


text \<open>
  An entry of the database-backed tracker with a start time, a number of minutes and
  the name of its category to choose.
\<close>

definition db_sample :: "int \<Rightarrow> int \<Rightarrow> string \<Rightarrow> db_entry" where
  "db_sample t m n =
     \<lparr>db_id = ''d'', start_time = Num t, duration_minutes = Some m,
      db_description = ''work'', projects = Some \<lparr>name = Some n\<rparr>\<rparr>"

text \<open>
  The component with these entries, 2024-01-04 selected and the form filled in for
  an hour from noon.
\<close>

definition sample_state :: app_state where
  "sample_state =
     \<lparr>entries = sample_entries, selectedDate = ''2024-01-04'', startTime = ''12:00'',
      endTime = ''13:00'', descriptionInput = ''lunch'', tagInput = ''Self-Care''\<rparr>"

text \<open>
  The component as it starts, with no entries, and the form filled in for an hour
  from nine on a given date.
\<close>

definition form_for :: "entry list \<Rightarrow> string \<Rightarrow> app_state" where
  "form_for es d =
     \<lparr>entries = es, selectedDate = d, startTime = ''09:00'', endTime = ''10:00'',
      descriptionInput = ''work'', tagInput = ''Productive''\<rparr>"

text \<open>
  The entry that \<open>addEntry\<close> makes of that form, and the component after the
  call, with the four fields of the form emptied.
\<close>

definition hour_entry :: "int \<Rightarrow> string \<Rightarrow> jsnum \<Rightarrow> entry" where
  "hour_entry i d dur =
     \<lparr>entry_id = i, date = d, start = ''09:00'', endT = ''10:00'', duration = dur,
      description = ''work'', tag = ''Productive''\<rparr>"

definition emptied :: "entry list \<Rightarrow> string \<Rightarrow> app_state" where
  "emptied es d =
     \<lparr>entries = es, selectedDate = d, startTime = [], endTime = [],
      descriptionInput = [], tagInput = []\<rparr>"

text \<open>One entry of 140 minutes, and one of 30, with a date and a tag to choose.\<close>

definition work140 :: "string \<Rightarrow> string \<Rightarrow> entry" where
  "work140 d t =
     \<lparr>entry_id = 8, date = d, start = ''09:00'', endT = ''11:20'', duration = Num 140,
      description = ''work'', tag = t\<rparr>"

definition chess30 :: "string \<Rightarrow> entry" where
  "chess30 t =
     \<lparr>entry_id = 7, date = ''2024-01-05'', start = ''20:00'', endT = ''20:30'',
      duration = Num 30, description = ''chess'', tag = t\<rparr>"

section \<open>Properties of the duration\<close>

subsection \<open>What a parsed time and a parsed date look like\<close>

lemma digit_Some: "digit c = Some v \<Longrightarrow> 0 \<le> v \<and> v \<le> 9 \<and> c \<noteq> CHR ''T''"
  by (auto simp: digit_def Let_def split: if_splits)

lemma digits2: "digits 0 [a, b] = Some v \<Longrightarrow>
  0 \<le> v \<and> v \<le> 99 \<and> a \<noteq> CHR ''T'' \<and> b \<noteq> CHR ''T''"
  by (auto split: option.splits dest!: digit_Some)

lemma digits3: "digits 0 [a, b, c] = Some v \<Longrightarrow>
  0 \<le> v \<and> v \<le> 999 \<and> a \<noteq> CHR ''T'' \<and> b \<noteq> CHR ''T'' \<and> c \<noteq> CHR ''T''"
  by (auto split: option.splits dest!: digit_Some)

lemma digits4: "digits 0 [a, b, c, d] = Some v \<Longrightarrow>
  0 \<le> v \<and> v \<le> 9999 \<and>
  a \<noteq> CHR ''T'' \<and> b \<noteq> CHR ''T'' \<and> c \<noteq> CHR ''T'' \<and> d \<noteq> CHR ''T''"
  by (auto split: option.splits dest!: digit_Some)

lemma MakeTime_Some: "MakeTime hh mm ss ms = Some t \<Longrightarrow>
   \<exists>h m s f. hh = Some h \<and> mm = Some m \<and> ss = Some s \<and> ms = Some f \<and>
     h \<le> 24 \<and> m \<le> 59 \<and> s \<le> 59 \<and> (h = 24 \<longrightarrow> m = 0 \<and> s = 0 \<and> f = 0) \<and>
     t = ((h * 60 + m) * 60 + s) * 1000 + f"
  by (auto simp: MakeTime_def split: option.splits if_splits)

lemma MakeTime_range:
  assumes "MakeTime hh mm ss ms = Some t"
    and "\<And>h. hh = Some h \<Longrightarrow> 0 \<le> h" "\<And>m. mm = Some m \<Longrightarrow> 0 \<le> m"
    and "\<And>s. ss = Some s \<Longrightarrow> 0 \<le> s" "\<And>f. ms = Some f \<Longrightarrow> 0 \<le> f \<and> f \<le> 999"
  shows "0 \<le> t \<and> t \<le> msPerDay"
proof -
  from MakeTime_Some[OF assms(1)] obtain h m s f where
    eq: "hh = Some h" "mm = Some m" "ss = Some s" "ms = Some f"
    and b: "h \<le> 24" "m \<le> 59" "s \<le> 59" "h = 24 \<longrightarrow> m = 0 \<and> s = 0 \<and> f = 0"
    and t: "t = ((h * 60 + m) * 60 + s) * 1000 + f" by blast
  from eq assms(2-5) have nn: "0 \<le> h" "0 \<le> m" "0 \<le> s" "0 \<le> f" "f \<le> 999" by auto
  show ?thesis
  proof (cases "h = 24")
    case True
    with b t show ?thesis by (simp add: msPerDay_def)
  next
    case False
    with b have "h \<le> 23" by simp
    with nn b t show ?thesis unfolding msPerDay_def by simp
  qed
qed

lemma parseTimeOfDay_no_T: "parseTimeOfDay t = Some ms \<Longrightarrow> CHR ''T'' \<notin> set t"
  unfolding parseTimeOfDay_def
  by (auto simp del: digits.simps split: list.splits if_splits
      dest!: MakeTime_Some digits2 digits3)

lemma parseTimeOfDay_range: "parseTimeOfDay t = Some ms \<Longrightarrow> 0 \<le> ms \<and> ms \<le> msPerDay"
  unfolding parseTimeOfDay_def
  by (auto simp del: digits.simps split: list.splits if_splits
      elim!: MakeTime_range[THEN conjunct1] MakeTime_range[THEN conjunct2]
      dest!: digits2 digits3)

lemma parseDate_no_T: "parseDate d = Some day \<Longrightarrow> CHR ''T'' \<notin> set d"
  unfolding parseDate_def
  by (auto simp del: digits.simps split: list.splits if_splits option.splits
      dest!: digits2 digits4)

text \<open>The days of the years 0 to 9999 are far inside the range of a time value.\<close>

lemma DayFromYear_range:
  assumes "0 \<le> y" and "y \<le> 9999"
  shows "- 1000000 \<le> DayFromYear y \<and> DayFromYear y \<le> 3000000"
proof -
  have a: "- 493 \<le> (y - 1969) div 4" "(y - 1969) div 4 \<le> 2007"
    using zdiv_mono1[of "- 1969" "y - 1969" 4] zdiv_mono1[of "y - 1969" 8030 4] assms by simp_all
  have b: "- 20 \<le> (y - 1901) div 100" "(y - 1901) div 100 \<le> 80"
    using zdiv_mono1[of "- 1901" "y - 1901" 100] zdiv_mono1[of "y - 1901" 8098 100] assms
    by simp_all
  have c: "- 5 \<le> (y - 1601) div 400" "(y - 1601) div 400 \<le> 20"
    using zdiv_mono1[of "- 1601" "y - 1601" 400] zdiv_mono1[of "y - 1601" 8398 400] assms
    by simp_all
  define q4 where "q4 = (y - 1969) div 4"
  define q100 where "q100 = (y - 1901) div 100"
  define q400 where "q400 = (y - 1601) div 400"
  have "DayFromYear y = 365 * (y - 1970) + q4 - q100 + q400"
    by (simp add: DayFromYear_def q4_def q100_def q400_def)
  moreover note a b c assms
  ultimately have "- 1000000 \<le> DayFromYear y" and "DayFromYear y \<le> 3000000"
    unfolding q4_def[symmetric] q100_def[symmetric] q400_def[symmetric] by simp_all
  then show ?thesis by simp
qed

lemma monthStart_range: "0 \<le> monthStart leap m \<and> monthStart leap m \<le> 335"
  by (simp add: monthStart_def)

lemma parseDate_range:
  assumes "parseDate d = Some day"
  shows "- 1000000 \<le> day \<and> day \<le> 3001000"
proof -
  from assms obtain y m t where y: "0 \<le> y" "y \<le> 9999" and t: "1 \<le> t" "t \<le> 31"
    and day: "day = MakeDay y m t"
    unfolding parseDate_def
    by (auto simp del: digits.simps split: list.splits if_splits option.splits
        dest!: digits4)
  from DayFromYear_range[OF y] monthStart_range[of "InLeapYear y" m] t
  have "- 1000000 \<le> day" and "day \<le> 3001000"
    unfolding day MakeDay_def by linarith+
  then show ?thesis by simp
qed

subsection \<open>The sample engines read the format\<close>

lemma split_at_sep:
  "c \<notin> set d \<Longrightarrow>
     takeWhile (\<lambda>x. x \<noteq> c) (d @ c # t) = d \<and> dropWhile (\<lambda>x. x \<noteq> c) (d @ c # t) = c # t"
  by (induction d) auto

text \<open>
  For the sample engine the string \<open>`${d}T${t}`\<close> is a date-time exactly when \<open>d\<close>
  is a date and \<open>t\<close> a time of day: no \<open>T\<close> inside \<open>d\<close> or \<open>t\<close> can take the place
  of the separator.
\<close>

lemma standard_parse_concat:
  "standard_parse tza (d @ CHR ''T'' # t) =
     (case parseDate d of None \<Rightarrow> NaN
      | Some day \<Rightarrow> (case parseTimeOfDay t of None \<Rightarrow> NaN
          | Some ms \<Rightarrow> Num (day * msPerDay + ms - tza (day * msPerDay + ms))))"
proof (cases "CHR ''T'' \<in> set d")
  case False
  then have "takeWhile (\<lambda>c. c \<noteq> CHR ''T'') (d @ CHR ''T'' # t) = d"
    and "dropWhile (\<lambda>c. c \<noteq> CHR ''T'') (d @ CHR ''T'' # t) = CHR ''T'' # t"
    using split_at_sep[of "CHR ''T''" d t] by simp_all
  then show ?thesis by (simp add: standard_parse_def split: option.splits)
next
  case True
  then obtain d1 d2 where d: "d = d1 @ CHR ''T'' # d2" and d1: "CHR ''T'' \<notin> set d1"
    by (meson split_list_first)
  have none: "parseDate d = None"
    using True parseDate_no_T by (cases "parseDate d") auto
  have tw: "takeWhile (\<lambda>c. c \<noteq> CHR ''T'') (d @ CHR ''T'' # t) = d1"
    and dw: "dropWhile (\<lambda>c. c \<noteq> CHR ''T'') (d @ CHR ''T'' # t) = CHR ''T'' # (d2 @ CHR ''T'' # t)"
    using split_at_sep[OF d1, of "d2 @ CHR ''T'' # t"] by (simp_all add: d)
  have "parseTimeOfDay (d2 @ CHR ''T'' # t) = None"
    using parseTimeOfDay_no_T[of "d2 @ CHR ''T'' # t"]
    by (cases "parseTimeOfDay (d2 @ CHR ''T'' # t)") auto
  then show ?thesis
    unfolding standard_parse_def Let_def tw dw by (simp add: none split: option.splits)
qed

lemma reads_standard_sample: "reads_standard (standard_engine tza_utc tza_local)"
  by (simp add: reads_standard_def standard_engine_def standard_parse_concat UTC_def)

lemma steady_new_york_winter:
  assumes "hi < 1710039600000"
  shows "steady new_york_2024 (- 18000000) lo hi"
  using assms
  by (simp add: steady_def new_york_2024_def standard_engine_def new_york_utc_def
      new_york_local_def msPerDay_def)

lemma steady_utc: "steady utc_engine 0 lo hi"
  by (simp add: steady_def utc_engine_def standard_engine_def msPerDay_def)

subsection \<open>The day added by \<open>setDate\<close>\<close>

lemma steadyD:
  assumes "steady eng c lo hi" and "lo \<le> t" and "t \<le> hi"
  shows "LocalTZA_utc eng t = c" and "LocalTZA_local eng (t + c) = c"
  using assms unfolding steady_def by blast+

text \<open>
  While the zone keeps its offset, \<open>setDate\<close> moves a time value by whole days of 24
  hours.
\<close>

lemma setDate_steady:
  assumes "steady eng c lo hi" and "lo \<le> t" and "t \<le> hi"
    and "lo \<le> t + k * msPerDay" and "t + k * msPerDay \<le> hi"
    and "\<bar>t + k * msPerDay\<bar> \<le> 8640000000000000"
  shows "setDate_plus eng (Num t) k = Num (t + k * msPerDay)"
proof -
  have a: "LocalTZA_utc eng t = c"
    by (rule steadyD(1)[OF assms(1-3)])
  have "LocalTZA_local eng ((t + k * msPerDay) + c) = c"
    by (rule steadyD(2)[OF assms(1) assms(4) assms(5)])
  then have b: "LocalTZA_local eng (t + c + k * msPerDay) = c"
    by (simp add: add.assoc add.commute[of c])
  show ?thesis
    using assms(6) by (simp add: setDate_plus_def LocalTime_def UTC_def TimeClip_def a b)
qed

lemma calculateDuration_parsed:
  assumes "reads_standard eng" and "parseDate d = Some day"
    and "parseTimeOfDay startStr = Some s" and "parseTimeOfDay endStr = Some e"
    and "steady eng c (day * msPerDay - c) ((day + 2) * msPerDay - c)"
  shows "Date_parse eng (d @ ''T'' @ startStr) = Num (day * msPerDay + s - c)"
    and "Date_parse eng (d @ ''T'' @ endStr) = Num (day * msPerDay + e - c)"
    and "setDate_plus eng (Num (day * msPerDay + e - c)) 1 = Num ((day + 1) * msPerDay + e - c)"
    and "calculateDuration eng d startStr endStr =
           Math_round_div (Num ((if e < s then e + msPerDay else e) - s)) (1000 * 60)"
proof -
  let ?lo = "day * msPerDay - c" and ?hi = "(day + 2) * msPerDay - c"
  have r: "0 \<le> s" "s \<le> msPerDay" "0 \<le> e" "e \<le> msPerDay"
    using parseTimeOfDay_range assms(3,4) by auto
  have c: "\<bar>c\<bar> \<le> msPerDay" using assms(5) by (simp add: steady_def)
  have two: "(day + 2) * msPerDay = day * msPerDay + 2 * msPerDay"
    and one: "(day + 1) * msPerDay = day * msPerDay + msPerDay"
    by (simp_all add: algebra_simps)
  have off: "LocalTZA_local eng (day * msPerDay + x) = c" if "0 \<le> x" "x \<le> msPerDay" for x
  proof -
    have "LocalTZA_local eng ((day * msPerDay + x - c) + c) = c"
      by (rule steadyD(2)[OF assms(5)]) (use that two in \<open>simp_all add: msPerDay_def\<close>)
    then show ?thesis by simp
  qed
  have ps: "Date_parse eng (d @ ''T'' @ startStr) = Num (day * msPerDay + s - c)"
    using assms(1,2,3) off[OF r(1,2)] by (simp add: reads_standard_def UTC_def)
  have pe: "Date_parse eng (d @ ''T'' @ endStr) = Num (day * msPerDay + e - c)"
    using assms(1,2,4) off[OF r(3,4)] by (simp add: reads_standard_def UTC_def)
  have dr: "- 1000000 \<le> day" "day \<le> 3001000"
    using parseDate_range[OF assms(2)] by simp_all
  have "- 1000000 * msPerDay \<le> day * msPerDay" "day * msPerDay \<le> 3001000 * msPerDay"
    using dr by (simp_all add: msPerDay_def)
  then have big: "\<bar>day * msPerDay + e - c + 1 * msPerDay\<bar> \<le> 8640000000000000"
    using r c by (simp add: msPerDay_def abs_le_iff)
  have "setDate_plus eng (Num (day * msPerDay + e - c)) 1 = Num (day * msPerDay + e - c + 1 * msPerDay)"
    by (rule setDate_steady[OF assms(5) _ _ _ _ big])
      (use r two in \<open>simp_all add: msPerDay_def\<close>)
  then have sd: "setDate_plus eng (Num (day * msPerDay + e - c)) 1 = Num ((day + 1) * msPerDay + e - c)"
    by (simp add: one)
  from ps show "Date_parse eng (d @ ''T'' @ startStr) = Num (day * msPerDay + s - c)" .
  from pe show "Date_parse eng (d @ ''T'' @ endStr) = Num (day * msPerDay + e - c)" .
  from sd show "setDate_plus eng (Num (day * msPerDay + e - c)) 1 = Num ((day + 1) * msPerDay + e - c)" .
  show "calculateDuration eng d startStr endStr =
      Math_round_div (Num ((if e < s then e + msPerDay else e) - s)) (1000 * 60)"
  proof (cases "e < s")
    case True
    have "(day + 1) * msPerDay + e - c - (day * msPerDay + s - c) = e + msPerDay - s"
      by (simp add: algebra_simps)
    with True show ?thesis
      unfolding calculateDuration_def ps pe Let_def by (simp add: sd)
  next
    case False
    then show ?thesis
      unfolding calculateDuration_def ps pe Let_def by simp
  qed
qed

lemma calculateDuration_invalid:
  assumes "Date_parse eng (d @ ''T'' @ startStr) = NaN \<or> Date_parse eng (d @ ''T'' @ endStr) = NaN"
  shows "calculateDuration eng d startStr endStr = NaN"
proof (cases "Date_parse eng (d @ ''T'' @ startStr)")
  case NaN
  then show ?thesis
    by (cases "Date_parse eng (d @ ''T'' @ endStr)") (simp_all add: calculateDuration_def)
next
  case (Num a)
  with assms have "Date_parse eng (d @ ''T'' @ endStr) = NaN" by simp
  with Num show ?thesis by (simp add: calculateDuration_def)
qed

lemma calculateDuration_same:
  assumes "Date_parse eng (d @ ''T'' @ t) \<noteq> NaN"
  shows "calculateDuration eng d t t = Num 0"
proof -
  from assms obtain a where "Date_parse eng (d @ ''T'' @ t) = Num a"
    by (cases "Date_parse eng (d @ ''T'' @ t)") auto
  then show ?thesis by (simp add: calculateDuration_def)
qed

lemma round_div_minutes: "(2 * (60000 * m) + 1000 * 60) div (2 * (1000 * 60)) = (m :: int)"
  by simp

subsection \<open>Overnight activities\<close>

text \<open>
  C1, as the code has it.  For every calendar date and every pair of parseable times
  of day, in a zone that keeps its offset from the start of that date to the end of
  the next, \<open>calculateDuration\<close> reads both on that date; when the end is strictly
  before the start it moves the end by exactly one day of 24 hours before taking the
  difference, and otherwise takes the plain difference.  The result is a number of
  minutes, never negative; for times in whole minutes it is the difference of the
  minutes of the day, plus 1440 when the end is earlier.
\<close>

theorem calculateDuration_overnight:
  assumes "reads_standard eng" and "parseDate d = Some day"
    and "parseTimeOfDay startStr = Some s" and "parseTimeOfDay endStr = Some e"
    and "steady eng c (day * msPerDay - c) ((day + 2) * msPerDay - c)"
  shows "Date_parse eng (d @ ''T'' @ startStr) = Num (day * msPerDay + s - c) \<and>
         Date_parse eng (d @ ''T'' @ endStr) = Num (day * msPerDay + e - c) \<and>
         setDate_plus eng (Num (day * msPerDay + e - c)) 1 = Num ((day + 1) * msPerDay + e - c) \<and>
         calculateDuration eng d startStr endStr =
           Math_round_div (Num ((if e < s then e + msPerDay else e) - s)) (1000 * 60) \<and>
         (\<exists>n. calculateDuration eng d startStr endStr = Num n \<and> 0 \<le> n) \<and>
         (\<forall>a b. s = 60000 * a \<and> e = 60000 * b \<longrightarrow>
            calculateDuration eng d startStr endStr = Num ((if b < a then b + 1440 else b) - a))"
proof -
  have r: "0 \<le> s" "s \<le> msPerDay" "0 \<le> e" "e \<le> msPerDay"
    using parseTimeOfDay_range assms(3,4) by auto
  note p = calculateDuration_parsed[OF assms]
  have dur: "calculateDuration eng d startStr endStr =
      Math_round_div (Num ((if e < s then e + msPerDay else e) - s)) (1000 * 60)"
    by (rule p(4))
  have "0 \<le> (if e < s then e + msPerDay else e) - s"
    using r by auto
  then have nonneg: "\<exists>n. calculateDuration eng d startStr endStr = Num n \<and> 0 \<le> n"
    by (simp add: dur pos_imp_zdiv_nonneg_iff)
  have mins: "calculateDuration eng d startStr endStr = Num ((if b < a then b + 1440 else b) - a)"
    if "s = 60000 * a \<and> e = 60000 * b" for a b
  proof -
    have "(if e < s then e + msPerDay else e) - s = 60000 * ((if b < a then b + 1440 else b) - a)"
      using that by (simp add: msPerDay_def)
    then show ?thesis
      unfolding dur by (simp only: Math_round_div.simps round_div_minutes)
  qed
  from p(1) p(2) p(3) dur nonneg mins show ?thesis by blast
qed

theorem calculateDuration_overnight_witness:
  "parseDate ''2024-01-01'' = Some 19723 \<and> parseTimeOfDay ''23:30'' = Some 84600000 \<and>
   parseTimeOfDay ''00:15'' = Some 900000 \<and>
   Date_parse new_york_2024 (''2024-01-01'' @ ''T'' @ ''23:30'') = Num 1704169800000 \<and>
   calculateDuration new_york_2024 ''2024-01-01'' ''23:30'' ''00:15'' = Num 45"
proof -
  have d: "parseDate ''2024-01-01'' = Some 19723" by code_simp
  have s: "parseTimeOfDay ''23:30'' = Some 84600000" by code_simp
  have e: "parseTimeOfDay ''00:15'' = Some 900000" by code_simp
  have r: "reads_standard new_york_2024"
    unfolding new_york_2024_def by (rule reads_standard_sample)
  have z: "steady new_york_2024 (- 18000000) (19723 * msPerDay - (- 18000000))
      ((19723 + 2) * msPerDay - (- 18000000))"
    by (rule steady_new_york_winter) (simp add: msPerDay_def)
  note ex = calculateDuration_overnight[OF r d s e z]
  from ex have "Date_parse new_york_2024 (''2024-01-01'' @ ''T'' @ ''23:30'') =
      Num (19723 * msPerDay + 84600000 - (- 18000000))"
    by blast
  then have p: "Date_parse new_york_2024 (''2024-01-01'' @ ''T'' @ ''23:30'') = Num 1704169800000"
    by (simp add: msPerDay_def)
  from ex have "calculateDuration new_york_2024 ''2024-01-01'' ''23:30'' ''00:15'' =
      Math_round_div (Num ((if (900000::int) < 84600000 then 900000 + msPerDay else 900000) - 84600000)) (1000 * 60)"
    by blast
  then have "calculateDuration new_york_2024 ''2024-01-01'' ''23:30'' ''00:15'' = Num 45"
    by (simp add: msPerDay_def)
  with d s e p show ?thesis by blast
qed

text \<open>
  C1 as stated fails where the end equals the start: the end is then at or before
  the start, but the code does not move it by a day.  At 09:00 to 09:00 the result is
  0, and moving the end by a day would give 1440.  It also fails where the offset of
  the zone changes: in New York on 2024-03-10 the clocks go from 02:00 to 03:00, the
  start 02:30 is read as the instant 07:30 UTC and the end 03:00 as 07:00 UTC, the end
  is moved to the next day, and the half hour comes out as 1410 minutes.
\<close>

theorem calculateDuration_equal_times_not_advanced:
  "\<not> js_lt (Date_parse utc_engine (''2024-01-01'' @ ''T'' @ ''09:00''))
          (Date_parse utc_engine (''2024-01-01'' @ ''T'' @ ''09:00'')) \<and>
   calculateDuration utc_engine ''2024-01-01'' ''09:00'' ''09:00'' = Num 0 \<and>
   Math_round_div
     (js_sub (setDate_plus utc_engine (Date_parse utc_engine (''2024-01-01'' @ ''T'' @ ''09:00'')) 1)
        (Date_parse utc_engine (''2024-01-01'' @ ''T'' @ ''09:00''))) (1000 * 60) = Num 1440 \<and>
   Date_parse new_york_2024 (''2024-03-10'' @ ''T'' @ ''02:30'') = Num 1710055800000 \<and>
   Date_parse new_york_2024 (''2024-03-10'' @ ''T'' @ ''03:00'') = Num 1710054000000 \<and>
   calculateDuration new_york_2024 ''2024-03-10'' ''02:30'' ''03:00'' = Num 1410"
  by code_simp

subsection \<open>A zero-length activity\<close>

text \<open>
  C2.  For every calendar date and every time of day \<open>t\<close>, the duration from \<open>t\<close> to
  \<open>t\<close> is 0: equal times are not taken as an overnight activity of 1440 minutes.
  This holds in every time zone, with the sample engine and with every engine that
  reads the date-time format; and in any engine, for whatever date and time it makes
  a valid date of.
\<close>

theorem calculateDuration_same_time:
  assumes "parseDate d = Some day" and "parseTimeOfDay t = Some ms"
  shows "calculateDuration (standard_engine tza_utc tza_local) d t t = Num 0 \<and>
         calculateDuration (standard_engine tza_utc tza_local) d t t \<noteq> Num 1440 \<and>
         (\<forall>eng. reads_standard eng \<longrightarrow>
            calculateDuration eng d t t = Num 0 \<and> calculateDuration eng d t t \<noteq> Num 1440) \<and>
         (\<forall>eng d' t'. Date_parse eng (d' @ ''T'' @ t') \<noteq> NaN \<longrightarrow>
            calculateDuration eng d' t' t' = Num 0 \<and> calculateDuration eng d' t' t' \<noteq> Num 1440)"
proof -
  have any: "calculateDuration eng d' t' t' = Num 0 \<and> calculateDuration eng d' t' t' \<noteq> Num 1440"
    if "Date_parse eng (d' @ ''T'' @ t') \<noteq> NaN" for eng d' t'
    using calculateDuration_same[OF that] by simp
  have std: "calculateDuration eng d t t = Num 0 \<and> calculateDuration eng d t t \<noteq> Num 1440"
    if "reads_standard eng" for eng
  proof -
    have "Date_parse eng (d @ ''T'' @ t) \<noteq> NaN"
      using that assms by (simp add: reads_standard_def)
    then show ?thesis by (rule any)
  qed
  from std[OF reads_standard_sample[of tza_utc tza_local]] std any show ?thesis by blast
qed

theorem calculateDuration_same_time_witness:
  "parseDate ''2024-01-01'' = Some 19723 \<and> parseTimeOfDay ''09:00'' = Some 32400000 \<and>
   calculateDuration (standard_engine (\<lambda>t. 3600000) (\<lambda>t. 3600000)) ''2024-01-01'' ''09:00'' ''09:00'' = Num 0 \<and>
   calculateDuration new_york_2024 ''2024-03-10'' ''02:30'' ''02:30'' = Num 0"
proof -
  have d: "parseDate ''2024-01-01'' = Some 19723" by code_simp
  have t: "parseTimeOfDay ''09:00'' = Some 32400000" by code_simp
  have d': "parseDate ''2024-03-10'' = Some 19792" by code_simp
  have t': "parseTimeOfDay ''02:30'' = Some 9000000" by code_simp
  have r: "reads_standard new_york_2024"
    unfolding new_york_2024_def by (rule reads_standard_sample)
  from calculateDuration_same_time[OF d t, of "\<lambda>t. 3600000" "\<lambda>t. 3600000"]
  have a: "calculateDuration (standard_engine (\<lambda>t. 3600000) (\<lambda>t. 3600000))
      ''2024-01-01'' ''09:00'' ''09:00'' = Num 0"
    by blast
  from calculateDuration_same_time[OF d' t', of "\<lambda>t. 0" "\<lambda>t. 0"] r
  have b: "calculateDuration new_york_2024 ''2024-03-10'' ''02:30'' ''02:30'' = Num 0"
    by blast
  from d t a b show ?thesis by blast
qed

subsection \<open>Times that cannot be parsed\<close>

text \<open>
  C3, as the code has it.  \<open>calculateDuration\<close> has no error to raise.  For every
  input in which the start or the end cannot be parsed, that is, \<open>new Date\<close> of the
  selected date, \<open>T\<close> and the start, or of the selected date, \<open>T\<close> and the end, is
  an Invalid Date, it returns \<open>NaN\<close>: no error reaches the caller, and the result is
  neither zero nor any other number of minutes.
\<close>

theorem calculateDuration_unparseable:
  assumes "Date_parse eng (d @ ''T'' @ startStr) = NaN \<or> Date_parse eng (d @ ''T'' @ endStr) = NaN"
  shows "calculateDuration eng d startStr endStr = NaN \<and>
         (\<forall>n. calculateDuration eng d startStr endStr \<noteq> Num n)"
  using calculateDuration_invalid[OF assms] by simp

theorem calculateDuration_unparseable_witness:
  "Date_parse utc_engine (''2024-01-01'' @ ''T'' @ ''25:00'') = NaN \<and>
   calculateDuration utc_engine ''2024-01-01'' ''25:00'' ''09:00'' = NaN \<and>
   Date_parse utc_engine ('''' @ ''T'' @ ''10:00'') = NaN \<and>
   calculateDuration utc_engine '''' ''09:00'' ''10:00'' = NaN"
proof -
  have s: "Date_parse utc_engine (''2024-01-01'' @ ''T'' @ ''25:00'') = NaN" by code_simp
  then have "Date_parse utc_engine (''2024-01-01'' @ ''T'' @ ''25:00'') = NaN \<or>
      Date_parse utc_engine (''2024-01-01'' @ ''T'' @ ''09:00'') = NaN" by simp
  from calculateDuration_unparseable[OF this]
  have a: "calculateDuration utc_engine ''2024-01-01'' ''25:00'' ''09:00'' = NaN" by blast
  have e: "Date_parse utc_engine ('''' @ ''T'' @ ''10:00'') = NaN" by code_simp
  then have "Date_parse utc_engine ('''' @ ''T'' @ ''09:00'') = NaN \<or>
      Date_parse utc_engine ('''' @ ''T'' @ ''10:00'') = NaN" by simp
  from calculateDuration_unparseable[OF this]
  have b: "calculateDuration utc_engine '''' ''09:00'' ''10:00'' = NaN" by blast
  from s a e b show ?thesis by blast
qed

text \<open>
  C3 as stated fails: with the start \<open>abc\<close>, which is no time of day, the call
  returns normally, with the value \<open>NaN\<close>, where the claim has it fail with an
  error.
\<close>

theorem calculateDuration_returns_NaN:
  "parseTimeOfDay ''abc'' = None \<and>
   Date_parse utc_engine (''2024-01-01'' @ ''T'' @ ''abc'') = NaN \<and>
   calculateDuration utc_engine ''2024-01-01'' ''abc'' ''09:00'' = NaN"
  by code_simp

text \<open>
  Where the trackers do reject a time: \<open>addEntry\<close> refuses an empty field (a time
  input yields a valid time or the empty string), and the variant with free-text
  times submits only what \<open>validateTimeFormat\<close> accepts.
\<close>

lemma addEntry_empty_time:
  "startTime st = [] \<or> endTime st = [] \<Longrightarrow> addEntry eng stamp st = Inl PleaseFillInAllFields"
  by (auto simp: addEntry_def)

lemma handleSubmit_rejects:
  "(\<exists>errs. handleSubmit s e = Rejected errs) \<longleftrightarrow> \<not> validateTimeFormat s \<or> \<not> validateTimeFormat e"
  by (auto simp: handleSubmit_def Let_def)

lemma validateTimeFormat_examples:
  "validateTimeFormat ''9:15 AM''" "validateTimeFormat '' 2:30 pm ''"
  "\<not> validateTimeFormat ''13:00 PM''" "\<not> validateTimeFormat ''25:00''"
  "\<not> validateTimeFormat ''abc''"
  by code_simp+

section \<open>Properties of the totals\<close>

subsection \<open>Objects used as dictionaries\<close>

lemma map_of_put: "map_of (put k v ob) = (map_of ob)(k \<mapsto> v)"
  by (induction ob) (auto simp: fun_eq_iff)

lemma keys_put: "fst ` set (put k v ob) = insert k (fst ` set ob)"
  by (induction k v ob rule: put.induct) auto

lemma map_of_obj_set:
  "map_of (obj_set k v ob) = (if k = ''__proto__'' then map_of ob else (map_of ob)(k \<mapsto> v))"
  by (simp add: obj_set_def map_of_put)

lemma keys_obj_set:
  "fst ` set (obj_set k v ob) = (if k = ''__proto__'' then fst ` set ob else insert k (fst ` set ob))"
  by (simp add: obj_set_def keys_put)

lemma keys_add_to:
  "fst ` set (add_to ob k v) = (if k = ''__proto__'' then fst ` set ob else insert k (fst ` set ob))"
  by (simp add: add_to_def keys_obj_set)

lemma values_put: "snd ` set (put k v ob) \<subseteq> insert v (snd ` set ob)"
  by (induction k v ob rule: put.induct) auto

lemma distinct_put: "distinct (map fst ob) \<Longrightarrow> distinct (map fst (put k v ob))"
proof (induction ob)
  case Nil
  then show ?case by simp
next
  case (Cons p ob)
  obtain k' v' where p: "p = (k', v')" by (cases p)
  show ?case
  proof (cases "k' = k")
    case True
    with Cons.prems p show ?thesis by simp
  next
    case False
    have "k' \<notin> fst ` set (put k v ob)"
      using Cons.prems False p by (simp add: keys_put)
    with Cons False p show ?thesis by simp
  qed
qed

lemma distinct_add_to: "distinct (map fst ob) \<Longrightarrow> distinct (map fst (add_to ob k v))"
  by (simp add: add_to_def obj_set_def distinct_put)

lemma proto_inherited: "''__proto__'' \<in> set inheritedKeys"
  by (simp add: inheritedKeys_def)

lemma obj_get_plain: "k \<notin> set inheritedKeys \<Longrightarrow> obj_get ob k = map_of ob k"
  by (simp add: obj_get_def split: option.splits)

lemma map_of_add_to_other: "k' \<noteq> k \<Longrightarrow> map_of (add_to ob k' v) k = map_of ob k"
  by (simp add: add_to_def map_of_obj_set)

text \<open>
  Under a key that names no inherited property, and that holds a number or nothing,
  \<open>o[k] = (o[k] || 0) + n\<close> adds \<open>n\<close> to the minutes of the key.
\<close>

lemma map_of_add_to_plain:
  assumes "k \<notin> set inheritedKeys"
    and "map_of ob k = None \<or> (\<exists>m. map_of ob k = Some (Number m))"
  shows "map_of (add_to ob k (Number (Num n))) k = Some (Number (Num (minutes_of ob k + n)))"
proof -
  have p: "k \<noteq> ''__proto__''" using assms(1) proto_inherited by auto
  have "or_zero (map_of ob k) = Number (Num (minutes_of ob k))"
  proof (cases "map_of ob k")
    case None
    then show ?thesis by (simp add: minutes_of_def)
  next
    case (Some v)
    with assms(2) obtain m where "v = Number m" by auto
    with Some show ?thesis by (cases m) (simp_all add: minutes_of_def)
  qed
  then show ?thesis
    using p by (simp add: add_to_def obj_get_plain[OF assms(1)] map_of_obj_set)
qed

lemma filter_key_absent: "t \<notin> kf ` set xs \<Longrightarrow> filter (\<lambda>x. kf x = t) xs = []"
  by (auto simp: filter_empty_conv)

subsection \<open>Accumulating a list into an object\<close>

text \<open>
  The loop \<open>xs.forEach(x => { ob[key(x)] = (ob[key(x)] || 0) + val(x) })\<close>, seen
  from a key that names no inherited property and whose values are numbers: the key
  ends with the sum of its values, whatever the other keys are.
\<close>

lemma foldl_add_to_lookup:
  assumes "k \<notin> set inheritedKeys"
    and "\<forall>x\<in>set xs. kf x = k \<longrightarrow> (\<exists>n. vf x = Number (Num n))"
    and "map_of ob k = None \<or> (\<exists>m. map_of ob k = Some (Number m))"
  shows "map_of (foldl (\<lambda>ob x. add_to ob (kf x) (vf x)) ob xs) k =
     (if k \<in> kf ` set xs
      then Some (Number (Num (minutes_of ob k +
             sum_list (map (\<lambda>x. num_of (to_number (vf x))) (filter (\<lambda>x. kf x = k) xs)))))
      else map_of ob k)"
  using assms(2,3)
proof (induction xs arbitrary: ob)
  case Nil
  then show ?case by simp
next
  case (Cons x xs)
  let ?ob = "add_to ob (kf x) (vf x)"
  show ?case
  proof (cases "kf x = k")
    case True
    with Cons.prems(1) obtain n where n: "vf x = Number (Num n)" by auto
    have look: "map_of ?ob k = Some (Number (Num (minutes_of ob k + n)))"
      unfolding n True[symmetric]
      using map_of_add_to_plain[OF assms(1) Cons.prems(2), of n] True by simp
    then have inv: "map_of ?ob k = None \<or> (\<exists>m. map_of ?ob k = Some (Number m))"
      by simp
    have m: "minutes_of ?ob k = minutes_of ob k + n"
      using look by (simp add: minutes_of_def)
    have IH: "map_of (foldl (\<lambda>ob x. add_to ob (kf x) (vf x)) ?ob xs) k =
       (if k \<in> kf ` set xs
        then Some (Number (Num (minutes_of ?ob k +
               sum_list (map (\<lambda>x. num_of (to_number (vf x))) (filter (\<lambda>x. kf x = k) xs)))))
        else map_of ?ob k)"
      using Cons.IH[OF _ inv] Cons.prems(1) by simp
    show ?thesis
      using True n m look IH by (simp add: filter_key_absent)
  next
    case False
    have same: "map_of ?ob k = map_of ob k"
      using False by (simp add: map_of_add_to_other)
    then have inv: "map_of ?ob k = None \<or> (\<exists>m. map_of ?ob k = Some (Number m))"
      using Cons.prems(2) by simp
    have m: "minutes_of ?ob k = minutes_of ob k"
      using same by (simp add: minutes_of_def)
    have IH: "map_of (foldl (\<lambda>ob x. add_to ob (kf x) (vf x)) ?ob xs) k =
       (if k \<in> kf ` set xs
        then Some (Number (Num (minutes_of ?ob k +
               sum_list (map (\<lambda>x. num_of (to_number (vf x))) (filter (\<lambda>x. kf x = k) xs)))))
        else map_of ?ob k)"
      using Cons.IH[OF _ inv] Cons.prems(1) by simp
    show ?thesis
      using False m same IH by auto
  qed
qed

lemma foldl_add_to_keys:
  "fst ` set (foldl (\<lambda>ob x. add_to ob (kf x) (vf x)) ob xs) =
     fst ` set ob \<union> (kf ` set xs - {''__proto__''})"
  by (induction xs arbitrary: ob) (auto simp: keys_add_to)

lemma foldl_add_to_distinct:
  "distinct (map fst ob) \<Longrightarrow> distinct (map fst (foldl (\<lambda>ob x. add_to ob (kf x) (vf x)) ob xs))"
  by (induction xs arbitrary: ob) (auto simp: distinct_add_to)

text \<open>
  When every key names no inherited property and every value is a number, the
  object holds numbers only, and their sum grows by the sum of the values.
\<close>

lemma sum_put:
  "sum_list (map (\<lambda>p. num_of (to_number (snd p))) (put k v ob)) =
     sum_list (map (\<lambda>p. num_of (to_number (snd p))) ob) -
       (case map_of ob k of None \<Rightarrow> 0 | Some u \<Rightarrow> num_of (to_number u)) + num_of (to_number v)"
proof (induction ob)
  case Nil
  then show ?case by simp
next
  case (Cons p ob)
  obtain k' v' where p: "p = (k', v')" by (cases p)
  show ?case using Cons.IH p by (cases "k' = k") simp_all
qed

lemma add_to_numbers:
  assumes "k \<notin> set inheritedKeys" and "\<forall>v\<in>snd ` set ob. \<exists>m. v = Number (Num m)"
  shows "(\<forall>v\<in>snd ` set (add_to ob k (Number (Num n))). \<exists>m. v = Number (Num m)) \<and>
         sum_list (map (\<lambda>p. num_of (to_number (snd p))) (add_to ob k (Number (Num n)))) =
           sum_list (map (\<lambda>p. num_of (to_number (snd p))) ob) + n"
proof -
  have p: "k \<noteq> ''__proto__''" using assms(1) proto_inherited by auto
  have own: "\<exists>m. u = Number (Num m)" if "map_of ob k = Some u" for u
    using assms(2) map_of_SomeD[OF that] by force
  have z: "or_zero (map_of ob k) =
      Number (Num (case map_of ob k of None \<Rightarrow> 0 | Some u \<Rightarrow> num_of (to_number u)))"
  proof (cases "map_of ob k")
    case None
    then show ?thesis by simp
  next
    case (Some u)
    with own obtain m where "u = Number (Num m)" by blast
    with Some show ?thesis by simp
  qed
  let ?v = "Number (Num ((case map_of ob k of None \<Rightarrow> 0 | Some u \<Rightarrow> num_of (to_number u)) + n))"
  have a: "add_to ob k (Number (Num n)) = put k ?v ob"
    using p by (simp add: add_to_def obj_get_plain[OF assms(1)] z obj_set_def)
  have "snd ` set (put k ?v ob) \<subseteq> insert ?v (snd ` set ob)"
    by (rule values_put)
  with assms(2) have "\<forall>v\<in>snd ` set (put k ?v ob). \<exists>m. v = Number (Num m)"
    by blast
  then show ?thesis unfolding a by (simp add: sum_put)
qed

lemma foldl_add_to_numbers:
  assumes "\<forall>x\<in>set xs. kf x \<notin> set inheritedKeys \<and> vf x \<noteq> NaN"
    and "\<forall>v\<in>snd ` set ob. \<exists>m. v = Number (Num m)"
  shows "(\<forall>v\<in>snd ` set (foldl (\<lambda>ob x. add_to ob (kf x) (Number (vf x))) ob xs).
            \<exists>m. v = Number (Num m)) \<and>
         sum_list (map (\<lambda>p. num_of (to_number (snd p)))
             (foldl (\<lambda>ob x. add_to ob (kf x) (Number (vf x))) ob xs)) =
           sum_list (map (\<lambda>p. num_of (to_number (snd p))) ob) +
           sum_list (map (\<lambda>x. num_of (vf x)) xs)"
  using assms
proof (induction xs arbitrary: ob)
  case Nil
  then show ?case by simp
next
  case (Cons x xs)
  from Cons.prems(1) obtain n where n: "vf x = Num n" by (cases "vf x") auto
  from Cons.prems(1) have k: "kf x \<notin> set inheritedKeys" by simp
  note step = add_to_numbers[OF k Cons.prems(2), of n]
  from step have inv: "\<forall>v\<in>snd ` set (add_to ob (kf x) (Number (Num n))). \<exists>m. v = Number (Num m)"
    by blast
  from Cons.prems(1) have rest: "\<forall>x\<in>set xs. kf x \<notin> set inheritedKeys \<and> vf x \<noteq> NaN"
    by simp
  from Cons.IH[OF rest inv] step show ?case
    by (simp add: n)
qed

subsection \<open>The entries of a date\<close>

lemma getEntriesForDate_db_valid:
  assumes "\<forall>e\<in>set dbs. start_time e \<noteq> NaN"
  shows "getEntriesForDate_db dbs d =
           Inr (filter (\<lambda>e. toISODate (start_time e) = Inr d) dbs)"
  using assms
proof (induction dbs)
  case Nil
  then show ?case by simp
next
  case (Cons e dbs)
  then obtain t where "start_time e = Num t" by (cases "start_time e") auto
  with Cons show ?case by simp
qed

lemma getEntriesForDate_db_invalid:
  assumes "\<exists>e\<in>set dbs. start_time e = NaN"
  shows "getEntriesForDate_db dbs d = Inl RangeError"
  using assms
proof (induction dbs)
  case Nil
  then show ?case by simp
next
  case (Cons e dbs)
  show ?case
  proof (cases "start_time e")
    case NaN
    then show ?thesis by simp
  next
    case (Num t)
    with Cons show ?thesis by simp
  qed
qed

lemma getEntriesForDate_db_Inr:
  assumes "getEntriesForDate_db dbs d = Inr r"
  shows "(\<forall>e\<in>set dbs. start_time e \<noteq> NaN) \<and>
         r = filter (\<lambda>e. toISODate (start_time e) = Inr d) dbs"
proof -
  have v: "\<forall>e\<in>set dbs. start_time e \<noteq> NaN"
    using assms getEntriesForDate_db_invalid[of dbs d] by auto
  with getEntriesForDate_db_valid[OF v, of d] assms show ?thesis by simp
qed



subsection \<open>Totals by tag\<close>

lemma getTotalsByTag_lookup:
  assumes "t \<notin> set inheritedKeys"
    and "\<forall>e\<in>set (getEntriesForDate es d). tag e = t \<longrightarrow> duration e \<noteq> NaN"
  shows "map_of (getTotalsByTag es d) t =
     (if t \<in> tag ` set (getEntriesForDate es d)
      then Some (Number (Num (\<Sum>e\<leftarrow>filter (\<lambda>e. tag e = t) (getEntriesForDate es d).
                                num_of (duration e))))
      else None)"
proof -
  have n: "\<forall>e\<in>set (getEntriesForDate es d). tag e = t \<longrightarrow>
      (\<exists>n. Number (duration e) = Number (Num n))"
  proof (intro ballI impI)
    fix e assume "e \<in> set (getEntriesForDate es d)" and "tag e = t"
    with assms(2) have "duration e \<noteq> NaN" by blast
    then show "\<exists>n. Number (duration e) = Number (Num n)" by (cases "duration e") auto
  qed
  show ?thesis
    unfolding getTotalsByTag_def Let_def
    by (subst foldl_add_to_lookup[OF assms(1) n]) (simp_all add: minutes_of_def)
qed

lemma getTotalsByTag_keys:
  "fst ` set (getTotalsByTag es d) = tag ` set (getEntriesForDate es d) - {''__proto__''}"
  by (simp add: getTotalsByTag_def foldl_add_to_keys)

lemma getTotalsByTag_distinct: "distinct (map fst (getTotalsByTag es d))"
  by (simp add: getTotalsByTag_def foldl_add_to_distinct)

text \<open>
  What the totals of a date hold when the tags of its entries name no inherited
  property and the durations are numbers: one bucket for each tag that has an entry
  on the date, with the sum of the durations of its entries, and the values of the
  buckets sum to the durations of the entries of the date.
\<close>

lemma getTotalsByTag_plain_tags:
  assumes "\<forall>e\<in>set (getEntriesForDate es d). tag e \<notin> set inheritedKeys \<and> duration e \<noteq> NaN"
  shows "fst ` set (getTotalsByTag es d) = tag ` set (getEntriesForDate es d) \<and>
         distinct (map fst (getTotalsByTag es d)) \<and>
         sum_list (map (\<lambda>p. num_of (to_number (snd p))) (getTotalsByTag es d)) =
           (\<Sum>e\<leftarrow>getEntriesForDate es d. num_of (duration e)) \<and>
         (\<forall>e\<in>set (getEntriesForDate es d).
            map_of (getTotalsByTag es d) (tag e) =
              Some (Number (Num (\<Sum>x\<leftarrow>filter (\<lambda>x. tag x = tag e) (getEntriesForDate es d).
                                   num_of (duration x)))))"
proof -
  have "''__proto__'' \<notin> tag ` set (getEntriesForDate es d)"
    using assms proto_inherited by auto
  then have k: "fst ` set (getTotalsByTag es d) = tag ` set (getEntriesForDate es d)"
    by (simp add: getTotalsByTag_keys)
  have "map_of (getTotalsByTag es d) (tag e) =
      Some (Number (Num (\<Sum>x\<leftarrow>filter (\<lambda>x. tag x = tag e) (getEntriesForDate es d).
                           num_of (duration x))))"
    if "e \<in> set (getEntriesForDate es d)" for e
  proof -
    have p: "tag e \<notin> set inheritedKeys" using assms that by blast
    have n: "\<forall>x\<in>set (getEntriesForDate es d). tag x = tag e \<longrightarrow> duration x \<noteq> NaN"
      using assms by blast
    show ?thesis
      using getTotalsByTag_lookup[OF p n] that by simp
  qed
  moreover have "sum_list (map (\<lambda>p. num_of (to_number (snd p))) (getTotalsByTag es d)) =
      (\<Sum>e\<leftarrow>getEntriesForDate es d. num_of (duration e))"
    unfolding getTotalsByTag_def Let_def
    using foldl_add_to_numbers[of "getEntriesForDate es d" tag duration "[]"] assms by simp
  ultimately show ?thesis using k getTotalsByTag_distinct[of es d] by blast
qed

text \<open>
  C7, as the code has it: it fails.  An entry whose tag is \<open>__proto__\<close>, as a CSV
  import can bring in, is in the entries of its date with its 30 minutes, but the
  totals of the date are empty: reading \<open>totals['__proto__']\<close> finds the inherited
  prototype, the sum is a string, and the assignment of a string to \<open>__proto__\<close>
  makes no property.  The entry is counted in no bucket.  With the tag \<open>Gaming\<close> the
  same entry has its bucket of 30 minutes.  The database-backed tracker does the same
  with an entry whose category is named \<open>__proto__\<close>.
\<close>

theorem proto_tag_minutes_dropped:
  "map duration (getEntriesForDate [chess30 ''__proto__''] ''2024-01-05'') = [Num 30] \<and>
   obj_get [] ''__proto__'' = Some (Inherited ''__proto__'') \<and>
   getTotalsByTag [chess30 ''__proto__''] ''2024-01-05'' = [] \<and>
   getTotalsByTag [chess30 ''Gaming''] ''2024-01-05'' = [(''Gaming'', Number (Num 30))] \<and>
   getTotalsByTag [chess30 ''Gaming'', chess30 ''__proto__''] ''2024-01-05'' =
     [(''Gaming'', Number (Num 30))] \<and>
   getEntriesForDate_db [db_sample 1704441600000 30 ''__proto__''] ''2024-01-05'' =
     Inr [db_sample 1704441600000 30 ''__proto__''] \<and>
   getTotalsByCategory [db_sample 1704441600000 30 ''__proto__''] ''2024-01-05'' = Inr []"
  by code_simp

subsection \<open>Entries without a known tag\<close>





section \<open>Properties of the weekly averages\<close>

subsection \<open>The window while the zone keeps its offset\<close>

lemma Day_minus: "Day (now + (- i) * msPerDay) = Day now - i"
proof -
  have "(now + (- i) * msPerDay) div msPerDay = now div msPerDay + (- i)"
    by (simp add: msPerDay_def)
  then show ?thesis by (simp add: Day_def)
qed

lemma windowDate_steady:
  assumes "steady eng c (now - 6 * msPerDay) now"
    and "- 8640000000000000 \<le> now - 6 * msPerDay" and "now \<le> 8640000000000000"
    and "0 \<le> i" and "i \<le> 6"
  shows "toISODate (setDate_plus eng (Num now) (- i)) = Inr (isoDate (Day now - i))"
proof -
  have "setDate_plus eng (Num now) (- i) = Num (now + (- i) * msPerDay)"
    by (rule setDate_steady[OF assms(1)])
      (use assms(2-5) in \<open>simp_all add: msPerDay_def abs_le_iff\<close>)
  then show ?thesis by (simp only: toISODate.simps Day_minus)
qed

lemma last7Days_steady:
  assumes "steady eng c (now - 6 * msPerDay) now"
    and "- 8640000000000000 \<le> now - 6 * msPerDay" and "now \<le> 8640000000000000"
  shows "last7Days eng now = Inr (map (\<lambda>i. isoDate (Day now - i)) [6, 5, 4, 3, 2, 1, 0])"
proof -
  note w = windowDate_steady[OF assms]
  have "toISODate (setDate_plus eng (Num now) (- 6)) = Inr (isoDate (Day now - 6))"
    "toISODate (setDate_plus eng (Num now) (- 5)) = Inr (isoDate (Day now - 5))"
    "toISODate (setDate_plus eng (Num now) (- 4)) = Inr (isoDate (Day now - 4))"
    "toISODate (setDate_plus eng (Num now) (- 3)) = Inr (isoDate (Day now - 3))"
    "toISODate (setDate_plus eng (Num now) (- 2)) = Inr (isoDate (Day now - 2))"
    "toISODate (setDate_plus eng (Num now) (- 1)) = Inr (isoDate (Day now - 1))"
    "toISODate (setDate_plus eng (Num now) (- 0)) = Inr (isoDate (Day now - 0))"
    by (rule w; simp)+
  then show ?thesis by (simp add: last7Days_def)
qed

subsection \<open>Only the entries of the window count\<close>

lemma getTotalsByTag_restrict:
  assumes "d \<in> D"
  shows "getTotalsByTag (filter (\<lambda>e. date e \<in> D) es) d = getTotalsByTag es d"
proof -
  have "filter (\<lambda>e. date e = d) (filter (\<lambda>e. date e \<in> D) es) = filter (\<lambda>e. date e = d) es"
    using assms by (induction es) auto
  then show ?thesis by (simp add: getTotalsByTag_def getEntriesForDate_def)
qed

lemma foldl_days_cong:
  assumes "\<forall>d\<in>set ds. T d = T' d"
  shows "foldl (\<lambda>w d. G w (T d)) w ds = foldl (\<lambda>w d. G w (T' d)) w ds"
  using assms by (induction ds arbitrary: w) simp_all

lemma getWeeklyAverages_window:
  assumes "last7Days eng now = Inr days"
  shows "getWeeklyAverages eng now es =
           getWeeklyAverages eng now (filter (\<lambda>e. date e \<in> set days) es)"
proof -
  let ?G = "\<lambda>w dayTotals. foldl (\<lambda>w (t, minutes). add_to w t minutes) w dayTotals"
  have "foldl (\<lambda>w d. ?G w (getTotalsByTag es d)) [] days =
      foldl (\<lambda>w d. ?G w (getTotalsByTag (filter (\<lambda>e. date e \<in> set days) es) d)) [] days"
    by (rule foldl_days_cong) (simp add: getTotalsByTag_restrict)
  then show ?thesis by (simp add: getWeeklyAverages_def assms)
qed

subsection \<open>The dates of the window are distinct\<close>

lemma digitChar_inj: "digitChar a = digitChar b \<Longrightarrow> a mod 10 = b mod 10"
proof -
  assume eq: "digitChar a = digitChar b"
  have d: "distinct ''0123456789''" by simp
  have la: "nat (a mod 10) < length ''0123456789''" and lb: "nat (b mod 10) < length ''0123456789''"
    by simp_all
  from eq have "nat (a mod 10) = nat (b mod 10)"
    unfolding digitChar_def using nth_eq_iff_index_eq[OF d la lb] by blast
  then show ?thesis by simp
qed

lemma pad2_inj: "pad2 a = pad2 b \<Longrightarrow> a mod 100 = b mod 100"
proof -
  assume "pad2 a = pad2 b"
  then have "digitChar (a div 10) = digitChar (b div 10)" and "digitChar a = digitChar b"
    by (simp_all add: pad2_def)
  then have "(a div 10) mod 10 = (b div 10) mod 10" and "a mod 10 = b mod 10"
    using digitChar_inj by blast+
  then have "10 * (a div 10 mod 10) + a mod 10 = 10 * (b div 10 mod 10) + b mod 10"
    by (simp only:)
  moreover have "a mod (10 * 10) = 10 * (a div 10 mod 10) + a mod 10"
    and "b mod (10 * 10) = 10 * (b div 10 mod 10) + b mod 10"
    by (rule zmod_zmult2_eq, simp)+
  ultimately have "a mod (10 * 10) = b mod (10 * 10)" by (simp only:)
  then show ?thesis by simp
qed

lemma length_pad2: "length (pad2 n) = 2"
  by (simp add: pad2_def)

lemma length_padYear: "length (padYear y) = (if 0 \<le> y \<and> y \<le> 9999 then 4 else 7)"
  by (simp add: padYear_def length_pad2)

lemma padYear_inj:
  assumes "\<bar>y1\<bar> < 1000000" and "\<bar>y2\<bar> < 1000000" and "padYear y1 = padYear y2"
  shows "y1 = y2"
proof -
  have len: "length (padYear y1) = length (padYear y2)" using assms(3) by simp
  show ?thesis
  proof (cases "0 \<le> y1 \<and> y1 \<le> 9999")
    case True
    with len have r2: "0 \<le> y2 \<and> y2 \<le> 9999"
      by (simp add: length_padYear split: if_splits)
    from assms(3) True r2 have "pad2 (y1 div 100) = pad2 (y2 div 100) \<and> pad2 y1 = pad2 y2"
      by (simp add: padYear_def length_pad2)
    then have h: "(y1 div 100) mod 100 = (y2 div 100) mod 100" and l: "y1 mod 100 = y2 mod 100"
      by (auto dest: pad2_inj)
    have "0 \<le> y div 100 \<and> y div 100 < 100" if "0 \<le> y \<and> y \<le> 9999" for y :: int
      using that zdiv_mono1[of y 9999 100] by (simp add: pos_imp_zdiv_nonneg_iff)
    with True r2 h have e: "y1 div 100 = y2 div 100" by simp
    have "y1 = 100 * (y1 div 100) + y1 mod 100" by simp
    also have "\<dots> = 100 * (y2 div 100) + y2 mod 100" by (simp only: e l)
    also have "\<dots> = y2" by simp
    finally show ?thesis .
  next
    case False
    with len have r2: "\<not> (0 \<le> y2 \<and> y2 \<le> 9999)"
      by (simp add: length_padYear split: if_splits)
    from assms(3) False r2 have sign: "(y1 < 0) = (y2 < 0)"
      and "pad2 (\<bar>y1\<bar> div 10000) = pad2 (\<bar>y2\<bar> div 10000) \<and>
           pad2 (\<bar>y1\<bar> div 100) = pad2 (\<bar>y2\<bar> div 100) \<and> pad2 \<bar>y1\<bar> = pad2 \<bar>y2\<bar>"
      by (auto simp: padYear_def length_pad2 split: if_splits)
    then have h: "(\<bar>y1\<bar> div 10000) mod 100 = (\<bar>y2\<bar> div 10000) mod 100"
      and m: "(\<bar>y1\<bar> div 100) mod 100 = (\<bar>y2\<bar> div 100) mod 100"
      and l: "\<bar>y1\<bar> mod 100 = \<bar>y2\<bar> mod 100"
      by (auto dest: pad2_inj)
    have small: "0 \<le> a div 10000 \<and> a div 10000 < 100" if "0 \<le> a" "a < 1000000" for a :: int
      using that zdiv_mono1[of a 999999 10000] by (simp add: pos_imp_zdiv_nonneg_iff)
    have low: "a mod (100 * 100) = 100 * (a div 100 mod 100) + a mod 100" for a :: int
      by (rule zmod_zmult2_eq) simp
    from small[of "\<bar>y1\<bar>"] small[of "\<bar>y2\<bar>"] assms(1,2) h
    have e: "\<bar>y1\<bar> div 10000 = \<bar>y2\<bar> div 10000" by simp
    have e': "\<bar>y1\<bar> mod (100 * 100) = \<bar>y2\<bar> mod (100 * 100)"
      by (simp only: low m l)
    have "\<bar>y1\<bar> = 10000 * (\<bar>y1\<bar> div 10000) + \<bar>y1\<bar> mod (100 * 100)" by simp
    also have "\<dots> = 10000 * (\<bar>y2\<bar> div 10000) + \<bar>y2\<bar> mod (100 * 100)" by (simp only: e e')
    also have "\<dots> = \<bar>y2\<bar>" by simp
    finally have "\<bar>y1\<bar> = \<bar>y2\<bar>" .
    with sign show ?thesis by linarith
  qed
qed

lemma century_rest:
  fixes r :: int
  assumes "0 \<le> r" and "r < 146097"
  shows "0 \<le> r - min (r div 36524) 3 * 36524 \<and> r - min (r div 36524) 3 * 36524 \<le> 36524"
proof -
  have dm: "r = 36524 * (r div 36524) + r mod 36524" by simp
  have md: "0 \<le> r mod 36524" "r mod 36524 < 36524" by simp_all
  show ?thesis
  proof (cases "r div 36524 \<le> 3")
    case True
    then have e: "r - min (r div 36524) 3 * 36524 = r mod 36524"
      by (simp add: min_def minus_div_mult_eq_mod)
    show ?thesis unfolding e using md by simp
  next
    case False
    then have "4 \<le> r div 36524" by simp
    then have "146096 \<le> r" using dm md by linarith
    moreover have "min (r div 36524) 3 = 3" using False by (simp add: min_def)
    ultimately show ?thesis using assms(2) by simp
  qed
qed

lemma YearFromDay_parts:
  "\<exists>q100 q4 q1. YearFromDay d = 1601 + 400 * ((d + 134774) div 146097) + 100 * q100 + 4 * q4 + q1 \<and>
     0 \<le> q100 \<and> q100 \<le> 3 \<and> 0 \<le> q4 \<and> q4 \<le> 24 \<and> 0 \<le> q1 \<and> q1 \<le> 3"
proof -
  define r400 where "r400 = (d + 134774) mod 146097"
  define q100 where "q100 = min (r400 div 36524) 3"
  define r100 where "r100 = r400 - q100 * 36524"
  define q1 where "q1 = min ((r100 mod 1461) div 365) 3"
  have n: "d - DayFromYear 1601 = d + 134774" by (simp add: DayFromYear_def)
  have y: "YearFromDay d =
      1601 + 400 * ((d + 134774) div 146097) + 100 * q100 + 4 * (r100 div 1461) + q1"
    unfolding YearFromDay_def n Let_def r400_def q100_def r100_def q1_def ..
  have r400: "0 \<le> r400" "r400 < 146097" by (simp_all add: r400_def)
  have q100: "0 \<le> q100" "q100 \<le> 3"
    using r400 by (simp_all add: q100_def pos_imp_zdiv_nonneg_iff)
  have r100: "0 \<le> r100" "r100 \<le> 36524"
    using century_rest[OF r400] by (simp_all add: r100_def q100_def)
  have q4: "0 \<le> r100 div 1461" "r100 div 1461 \<le> 24"
    using r100 zdiv_mono1[OF r100(2), of 1461] by (simp_all add: pos_imp_zdiv_nonneg_iff)
  have q1: "0 \<le> q1" "q1 \<le> 3"
    by (simp_all add: q1_def pos_imp_zdiv_nonneg_iff)
  from y q100 q4 q1 show ?thesis by blast
qed

lemma YearFromDay_bound:
  assumes "\<bar>d\<bar> \<le> 200000000"
  shows "\<bar>YearFromDay d\<bar> < 1000000"
proof -
  from YearFromDay_parts[of d] obtain q100 q4 q1 where
    y: "YearFromDay d = 1601 + 400 * ((d + 134774) div 146097) + 100 * q100 + 4 * q4 + q1"
    and b: "0 \<le> q100" "q100 \<le> 3" "0 \<le> q4" "q4 \<le> 24" "0 \<le> q1" "q1 \<le> 3"
    by blast
  have n: "- 199865226 \<le> d + 134774" "d + 134774 \<le> 200134774"
    using assms by linarith+
  have q400: "- 1369 \<le> (d + 134774) div 146097" "(d + 134774) div 146097 \<le> 1369"
    using zdiv_mono1[OF n(1), of 146097] zdiv_mono1[OF n(2), of 146097] by simp_all
  from q400 b show ?thesis unfolding y by linarith
qed

lemma MonthFromDay_range: "0 \<le> MonthFromDay d \<and> MonthFromDay d \<le> 11"
  by (simp add: MonthFromDay_def Let_def)

lemma day_from_parts: "d = MakeDay (YearFromDay d) (MonthFromDay d) (DateFromDay d)"
  by (simp add: DateFromDay_def MakeDay_def Let_def)

lemma isoDate_parts:
  assumes "isoDate d1 = isoDate d2"
  shows "padYear (YearFromDay d1) = padYear (YearFromDay d2) \<and>
         pad2 (MonthFromDay d1 + 1) = pad2 (MonthFromDay d2 + 1) \<and>
         pad2 (DateFromDay d1) = pad2 (DateFromDay d2)"
proof -
  have "length (isoDate d) = length (padYear (YearFromDay d)) + 6" for d
    by (simp add: isoDate_def length_pad2)
  with assms have "length (padYear (YearFromDay d1)) = length (padYear (YearFromDay d2))"
    by (metis add_right_cancel)
  with assms show ?thesis
    by (simp add: isoDate_def length_pad2)
qed

lemma isoDate_near_inj:
  assumes "\<bar>d1\<bar> \<le> 200000000" and "\<bar>d2\<bar> \<le> 200000000" and "\<bar>d1 - d2\<bar> < 100"
    and "isoDate d1 = isoDate d2"
  shows "d1 = d2"
proof -
  from isoDate_parts[OF assms(4)] have
    y: "padYear (YearFromDay d1) = padYear (YearFromDay d2)"
    and m: "pad2 (MonthFromDay d1 + 1) = pad2 (MonthFromDay d2 + 1)"
    and t: "pad2 (DateFromDay d1) = pad2 (DateFromDay d2)"
    by blast+
  have Y: "YearFromDay d1 = YearFromDay d2"
    using padYear_inj[OF YearFromDay_bound[OF assms(1)] YearFromDay_bound[OF assms(2)] y] .
  have "(MonthFromDay d1 + 1) mod 100 = (MonthFromDay d2 + 1) mod 100"
    using m by (rule pad2_inj)
  then have M: "MonthFromDay d1 = MonthFromDay d2"
    using MonthFromDay_range[of d1] MonthFromDay_range[of d2] by simp
  have D: "DateFromDay d1 mod 100 = DateFromDay d2 mod 100"
    using t by (rule pad2_inj)
  have "d1 - d2 = DateFromDay d1 - DateFromDay d2"
    using day_from_parts[of d1] day_from_parts[of d2] Y M by (simp add: MakeDay_def)
  moreover from D have "(DateFromDay d1 - DateFromDay d2) mod 100 = 0"
    by (simp add: mod_diff_cong)
  ultimately have "100 dvd d1 - d2" by (simp add: mod_eq_0_iff_dvd)
  then have "d1 - d2 = 0"
    using assms(3) dvd_imp_le_int[of "d1 - d2" 100] by auto
  then show ?thesis by simp
qed

text \<open>
  A time value of a \<open>Date\<close> is at most \<open>8.64e15\<close> milliseconds from the epoch.
  Within this range the dates of seven days in a row are pairwise different.
\<close>

lemma distinct_week:
  assumes "\<bar>now\<bar> \<le> 8640000000000000"
  shows "distinct (map (\<lambda>i. isoDate (Day now - i)) [6, 5, 4, 3, 2, 1, 0])"
proof -
  have "- 8640000000000000 \<le> now" and "now \<le> 8640000000000000"
    using assms by linarith+
  from zdiv_mono1[OF this(1), of msPerDay] zdiv_mono1[OF this(2), of msPerDay]
  have D: "\<bar>Day now\<bar> \<le> 100000000"
    by (simp add: Day_def msPerDay_def)
  have "inj_on (\<lambda>i. isoDate (Day now - i)) (set [6, 5, 4, 3, 2, 1, 0])"
  proof (rule inj_onI)
    fix i j :: int
    assume i: "i \<in> set [6, 5, 4, 3, 2, 1, 0]" and j: "j \<in> set [6, 5, 4, 3, 2, 1, 0]"
      and eq: "isoDate (Day now - i) = isoDate (Day now - j)"
    from i j have r: "0 \<le> i" "i \<le> 6" "0 \<le> j" "j \<le> 6" by auto
    have "Day now - i = Day now - j"
      by (rule isoDate_near_inj[OF _ _ _ eq]) (use D r in linarith)+
    then show "i = j" by simp
  qed
  then show ?thesis
    by (simp add: distinct_map)
qed

subsection \<open>The printed date is the calendar date of the day\<close>

lemma year_split:
  "\<exists>a b c e r4. YearFromDay d = 1601 + (400 * a + 100 * b + 4 * c + e) \<and>
     d + 134774 = 146097 * a + 36524 * b + 1461 * c + r4 \<and>
     0 \<le> b \<and> b \<le> 3 \<and> 0 \<le> c \<and> c \<le> 24 \<and> 0 \<le> e \<and> e \<le> 3 \<and>
     0 \<le> r4 \<and> r4 < 1461 \<and> e = min (r4 div 365) 3 \<and>
     1461 * c + r4 \<le> 36524 \<and> (b < 3 \<longrightarrow> 1461 * c + r4 < 36524) \<and>
     a = (d + 134774) div 146097"
proof -
  define n where "n = d + 134774"
  define r400 where "r400 = n mod 146097"
  define b where "b = min (r400 div 36524) 3"
  define r100 where "r100 = r400 - b * 36524"
  define e where "e = min ((r100 mod 1461) div 365) 3"
  have n: "d - DayFromYear 1601 = n" by (simp add: DayFromYear_def n_def)
  have y: "YearFromDay d = 1601 + 400 * (n div 146097) + 100 * b + 4 * (r100 div 1461) + e"
    unfolding YearFromDay_def n Let_def r400_def b_def r100_def e_def ..
  have r400: "0 \<le> r400" "r400 < 146097" by (simp_all add: r400_def)
  have nn: "n = 146097 * (n div 146097) + r400" by (simp add: r400_def)
  have b: "0 \<le> b" "b \<le> 3"
    using r400 by (simp_all add: b_def pos_imp_zdiv_nonneg_iff)
  have r100: "0 \<le> r100" "r100 \<le> 36524"
    using century_rest[OF r400] by (simp_all add: r100_def b_def)
  have r100': "r100 < 36524" if "b < 3"
  proof -
    from that have "b = r400 div 36524" by (simp add: b_def min_def split: if_splits)
    then have "r100 = r400 mod 36524" by (simp add: r100_def minus_div_mult_eq_mod)
    then show ?thesis by simp
  qed
  have c: "0 \<le> r100 div 1461" "r100 div 1461 \<le> 24"
    using r100 zdiv_mono1[OF r100(2), of 1461] by (simp_all add: pos_imp_zdiv_nonneg_iff)
  have rr: "r100 = 1461 * (r100 div 1461) + r100 mod 1461" by simp
  have r4: "0 \<le> r100 mod 1461" "r100 mod 1461 < 1461" by simp_all
  have e: "0 \<le> e" "e \<le> 3" by (simp_all add: e_def pos_imp_zdiv_nonneg_iff)
  have d: "d + 134774 = 146097 * (n div 146097) + 36524 * b + 1461 * (r100 div 1461) + r100 mod 1461"
    using nn rr by (simp add: r100_def n_def)
  have le: "1461 * (r100 div 1461) + r100 mod 1461 \<le> 36524"
    using r100(2) by simp
  have lt: "b < 3 \<longrightarrow> 1461 * (r100 div 1461) + r100 mod 1461 < 36524"
    using r100' by simp
  have E: "e = min ((r100 mod 1461) div 365) 3" by (simp add: e_def)
  have A: "n div 146097 = (d + 134774) div 146097" by (simp add: n_def)
  have y': "YearFromDay d = 1601 + (400 * (n div 146097) + 100 * b + 4 * (r100 div 1461) + e)"
    unfolding y by linarith
  from y' d b c e r4 E le lt A show ?thesis by blast
qed

lemma DayFromYear_split:
  assumes "0 \<le> b" "b \<le> 3" "0 \<le> c" "c \<le> 24" "0 \<le> e" "e \<le> 3"
  shows "DayFromYear (1601 + (400 * a + 100 * b + 4 * c + e)) =
           146097 * a + 36524 * b + 1461 * c + 365 * e - 134774"
proof -
  let ?k = "400 * a + 100 * b + 4 * c + e"
  have d4: "(1601 + ?k - 1969) div 4 = 100 * a + 25 * b + c - 92"
    by (rule int_div_pos_eq[where r = e]) (use assms in simp_all)
  have d100: "(1601 + ?k - 1901) div 100 = 4 * a + b - 3"
    by (rule int_div_pos_eq[where r = "4 * c + e"]) (use assms in simp_all)
  have d400: "(1601 + ?k - 1601) div 400 = a"
    by (rule int_div_pos_eq[where r = "100 * b + 4 * c + e"]) (use assms in simp_all)
  show ?thesis
    unfolding DayFromYear_def d4 d100 d400 by simp
qed

lemma leap_split:
  assumes "0 \<le> b" "b \<le> 3" "0 \<le> c" "c \<le> 24" "0 \<le> e" "e \<le> 3"
  shows "InLeapYear (1601 + (400 * a + 100 * b + 4 * c + e)) \<longleftrightarrow>
           e = 3 \<and> (c = 24 \<longrightarrow> b = 3)"
proof -
  let ?y = "1601 + (400 * a + 100 * b + 4 * c + e)"
  have m4: "?y mod 4 = (if e = 3 then 0 else e + 1)"
  proof (cases "e = 3")
    case True
    have "?y mod 4 = 0"
      by (rule int_mod_pos_eq[where q = "401 + 100 * a + 25 * b + c"]) (use True in simp_all)
    with True show ?thesis by simp
  next
    case False
    have "?y mod 4 = e + 1"
      by (rule int_mod_pos_eq[where q = "400 + 100 * a + 25 * b + c"]) (use False assms in simp_all)
    with False show ?thesis by simp
  qed
  have m100: "?y mod 100 = (if c = 24 \<and> e = 3 then 0 else 4 * c + e + 1)"
  proof (cases "c = 24 \<and> e = 3")
    case True
    have "?y mod 100 = 0"
      by (rule int_mod_pos_eq[where q = "17 + 4 * a + b"]) (use True in simp_all)
    with True show ?thesis by simp
  next
    case False
    have "?y mod 100 = 4 * c + e + 1"
      by (rule int_mod_pos_eq[where q = "16 + 4 * a + b"]) (use False assms in auto)
    with False show ?thesis by simp
  qed
  have m400: "?y mod 400 = (if b = 3 \<and> c = 24 \<and> e = 3 then 0 else 100 * b + 4 * c + e + 1)"
  proof (cases "b = 3 \<and> c = 24 \<and> e = 3")
    case True
    have "?y mod 400 = 0"
      by (rule int_mod_pos_eq[where q = "5 + a"]) (use True in simp_all)
    with True show ?thesis by simp
  next
    case False
    have "?y mod 400 = 100 * b + 4 * c + e + 1"
      by (rule int_mod_pos_eq[where q = "4 + a"]) (use False assms in auto)
    with False show ?thesis by simp
  qed
  show ?thesis
    unfolding InLeapYear_def m4 m100 m400 using assms by auto
qed

text \<open>
  The year that \<open>YearFromDay\<close> finds is the year of the day as the standard defines
  it: the day lies between the first day of that year and the first day of the next.
\<close>

lemma day_within_year:
  "0 \<le> d - DayFromYear (YearFromDay d) \<and>
   d - DayFromYear (YearFromDay d) < (if InLeapYear (YearFromDay d) then 366 else 365)"
proof -
  from year_split[of d] obtain a b c e r4 where
    y: "YearFromDay d = 1601 + (400 * a + 100 * b + 4 * c + e)"
    and d: "d + 134774 = 146097 * a + 36524 * b + 1461 * c + r4"
    and r: "0 \<le> b" "b \<le> 3" "0 \<le> c" "c \<le> 24" "0 \<le> e" "e \<le> 3"
    and r4: "0 \<le> r4" "r4 < 1461" and e: "e = min (r4 div 365) 3"
    and le: "1461 * c + r4 \<le> 36524" and lt: "b < 3 \<longrightarrow> 1461 * c + r4 < 36524"
    by blast
  have w: "d - DayFromYear (YearFromDay d) = r4 - 365 * e"
    unfolding y DayFromYear_split[OF r] using d by simp
  have dm: "r4 = 365 * (r4 div 365) + r4 mod 365" by simp
  have md: "0 \<le> r4 mod 365" "r4 mod 365 < 365" by simp_all
  have q: "0 \<le> r4 div 365" using r4 by (simp add: pos_imp_zdiv_nonneg_iff)
  have lo: "0 \<le> r4 - 365 * e"
    unfolding e using dm md q by (simp add: min_def) linarith
  have hi: "r4 - 365 * e < (if InLeapYear (YearFromDay d) then 366 else 365)"
  proof (cases "e = 3")
    case False
    then have "e = r4 div 365" using e by (simp add: min_def split: if_splits)
    then have "r4 - 365 * e = r4 mod 365" by (simp add: minus_mult_div_eq_mod)
    with md(2) have "r4 - 365 * e < 365" by (simp only:)
    then show ?thesis by (cases "InLeapYear (YearFromDay d)") simp_all
  next
    case True
    show ?thesis
    proof (cases "c = 24 \<and> b \<noteq> 3")
      case True
      with r lt have "r4 < 1460" by simp
      with \<open>e = 3\<close> show ?thesis by simp
    next
      case False
      then have "InLeapYear (YearFromDay d)"
        unfolding y leap_split[OF r] using \<open>e = 3\<close> by auto
      with r4 \<open>e = 3\<close> show ?thesis by simp
    qed
  qed
  from lo hi show ?thesis unfolding w by blast
qed

lemma month_and_date:
  "0 \<le> MonthFromDay d \<and> MonthFromDay d \<le> 11 \<and> 1 \<le> DateFromDay d \<and> DateFromDay d \<le> 31"
proof -
  define w where "w = d - DayFromYear (YearFromDay d)"
  have w: "0 \<le> w" "w < (if InLeapYear (YearFromDay d) then 366 else 365)"
    using day_within_year[of d] by (simp_all add: w_def)
  have m: "MonthFromDay d =
     (let leap = InLeapYear (YearFromDay d)
      in if w < monthStart leap 1 then 0 else if w < monthStart leap 2 then 1
         else if w < monthStart leap 3 then 2 else if w < monthStart leap 4 then 3
         else if w < monthStart leap 5 then 4 else if w < monthStart leap 6 then 5
         else if w < monthStart leap 7 then 6 else if w < monthStart leap 8 then 7
         else if w < monthStart leap 9 then 8 else if w < monthStart leap 10 then 9
         else if w < monthStart leap 11 then 10 else 11)"
    by (simp add: MonthFromDay_def Let_def w_def)
  have t: "DateFromDay d = w - monthStart (InLeapYear (YearFromDay d)) (MonthFromDay d) + 1"
    by (simp add: DateFromDay_def Let_def w_def)
  show ?thesis
  proof (cases "InLeapYear (YearFromDay d)")
    case True
    with w show ?thesis unfolding t m by (simp add: monthStart_def Let_def)
  next
    case False
    with w show ?thesis unfolding t m by (simp add: monthStart_def Let_def)
  qed
qed

lemma digit_digitChar: "digit (digitChar n) = Some (n mod 10)"
proof -
  have enum: "m = 0 \<or> m = 1 \<or> m = 2 \<or> m = 3 \<or> m = 4 \<or> m = 5 \<or> m = 6 \<or> m = 7 \<or>
      m = 8 \<or> m = 9" if "0 \<le> m" "m < 10" for m :: int
    using that by arith
  have "digit (''0123456789'' ! nat m) = Some m" if "0 \<le> m" "m < 10" for m :: int
    using enum[OF that] by (auto simp: digit_def)
  from this[of "n mod 10"] show ?thesis
    by (simp add: digitChar_def)
qed

lemma digits_pad2: "digits acc (pad2 n @ cs) = digits (100 * acc + n mod 100) cs"
proof -
  have m: "n mod (10 * 10) = 10 * (n div 10 mod 10) + n mod 10"
    by (rule zmod_zmult2_eq) simp
  have lin: "10 * (10 * acc + x) + r = 100 * acc + (10 * x + r)" for x r :: int
    by simp
  have step: "digits acc (pad2 n @ cs) = digits (10 * (10 * acc + n div 10 mod 10) + n mod 10) cs"
    by (simp add: pad2_def digit_digitChar)
  have "n mod 100 = 10 * (n div 10 mod 10) + n mod 10"
    using m by simp
  then show ?thesis
    unfolding step lin by (simp only:)
qed

lemma small_mod: "0 \<le> n \<Longrightarrow> n \<le> 99 \<Longrightarrow> n mod 100 = (n :: int)"
  by simp

lemma pad2_cons: "pad2 n = [digitChar (n div 10), digitChar n]"
  by (simp add: pad2_def)

text \<open>
  For the years that print with four digits, parsing the printed date gives the day
  back: the date that \<open>toISOString\<close> prints is the one that \<open>new Date\<close> reads.
\<close>

lemma parseDate_isoDate:
  assumes "0 \<le> YearFromDay d" and "YearFromDay d \<le> 9999"
  shows "parseDate (isoDate d) = Some d"
proof -
  define y where "y = YearFromDay d"
  define m where "m = MonthFromDay d + 1"
  define t where "t = DateFromDay d"
  have y: "0 \<le> y" "y \<le> 9999" using assms by (simp_all add: y_def)
  have m: "1 \<le> m" "m \<le> 12" using month_and_date[of d] by (simp_all add: m_def)
  have t: "1 \<le> t" "t \<le> 31" using month_and_date[of d] by (simp_all add: t_def)
  have yh: "0 \<le> y div 100" "y div 100 \<le> 99"
    using y zdiv_mono1[of y 9999 100] by (simp_all add: pos_imp_zdiv_nonneg_iff)
  have ys: "100 * (y div 100 mod 100) + y mod 100 = y"
    unfolding small_mod[OF yh] by simp
  have "digits 0 (pad2 (y div 100) @ pad2 y @ []) = digits (100 * (y div 100 mod 100) + y mod 100) []"
    unfolding digits_pad2 by simp
  then have Y: "digits 0 (pad2 (y div 100) @ pad2 y) = Some y"
    unfolding ys by simp
  have "digits 0 (pad2 m @ []) = Some (m mod 100)"
    unfolding digits_pad2 by simp
  then have M: "digits 0 (pad2 m) = Some m"
    using m by simp
  have "digits 0 (pad2 t @ []) = Some (t mod 100)"
    unfolding digits_pad2 by simp
  then have T: "digits 0 (pad2 t) = Some t"
    using t by simp
  have iso: "isoDate d = pad2 (y div 100) @ pad2 y @ CHR ''-'' # pad2 m @ CHR ''-'' # pad2 t"
    using y by (simp add: isoDate_def padYear_def y_def m_def t_def)
  have shape: "pad2 (y div 100) @ pad2 y @ CHR ''-'' # pad2 m @ CHR ''-'' # pad2 t =
      [digitChar (y div 100 div 10), digitChar (y div 100), digitChar (y div 10), digitChar y,
       CHR ''-'', digitChar (m div 10), digitChar m, CHR ''-'', digitChar (t div 10), digitChar t]"
    by (simp add: pad2_def)
  have Y': "digits 0 [digitChar (y div 100 div 10), digitChar (y div 100), digitChar (y div 10),
      digitChar y] = Some y"
    using Y by (simp only: pad2_cons append.simps)
  have M': "digits 0 [digitChar (m div 10), digitChar m] = Some m"
    using M by (simp only: pad2_cons)
  have T': "digits 0 [digitChar (t div 10), digitChar t] = Some t"
    using T by (simp only: pad2_cons)
  have "parseDate (isoDate d) = Some (MakeDay y (m - 1) t)"
    unfolding iso shape parseDate_def using m t
    by (simp only: list.case Y' M' T' option.case prod.case if_True simp_thms)
  also have "MakeDay y (m - 1) t = d"
    using day_from_parts[of d] by (simp add: y_def m_def t_def)
  finally show ?thesis .
qed

lemma year_of_clock_day:
  assumes "0 \<le> d" and "d \<le> 2932896"
  shows "0 \<le> YearFromDay d \<and> YearFromDay d \<le> 9999"
proof -
  from year_split[of d] obtain a b c e r4 where
    y: "YearFromDay d = 1601 + (400 * a + 100 * b + 4 * c + e)"
    and r: "0 \<le> b" "b \<le> 3" "0 \<le> c" "c \<le> 24" "0 \<le> e" "e \<le> 3"
    and a: "a = (d + 134774) div 146097"
    by blast
  have n: "0 \<le> d + 134774" "d + 134774 \<le> 3067670" using assms by linarith+
  have a0: "0 \<le> a" unfolding a using n(1) by (simp add: pos_imp_zdiv_nonneg_iff)
  have a20: "a \<le> 20" unfolding a using zdiv_mono1[OF n(2), of 146097] by simp
  have lo: "0 \<le> YearFromDay d" unfolding y using a0 r by linarith
  have hi: "YearFromDay d \<le> 10000" unfolding y using a20 r by linarith
  have "YearFromDay d \<noteq> 10000"
  proof
    assume "YearFromDay d = 10000"
    with day_within_year[of d] have "DayFromYear 10000 \<le> d" by simp
    then show False using assms(2) by (simp add: DayFromYear_def)
  qed
  with lo hi show ?thesis by linarith
qed

lemma week_days_parse:
  assumes "518400000 \<le> now" and "now < 253402300800000"
  shows "map parseDate (map (\<lambda>i. isoDate (Day now - i)) [6, 5, 4, 3, 2, 1, 0]) =
           map (\<lambda>i. Some (Day now - i)) [6, 5, 4, 3, 2, 1, 0]"
proof -
  have "now \<le> 253402300799999" using assms(2) by linarith
  from zdiv_mono1[OF assms(1), of msPerDay] zdiv_mono1[OF this, of msPerDay]
  have D: "6 \<le> Day now" "Day now \<le> 2932896"
    by (simp_all add: Day_def msPerDay_def)
  have "parseDate (isoDate (Day now - i)) = Some (Day now - i)" if "0 \<le> i" "i \<le> 6" for i
  proof -
    have "0 \<le> Day now - i" "Day now - i \<le> 2932896" using D that by linarith+
    from year_of_clock_day[OF this] show ?thesis
      by (simp add: parseDate_isoDate)
  qed
  from this[of 6] this[of 5] this[of 4] this[of 3] this[of 2] this[of 1] this[of 0]
  show ?thesis by simp
qed

subsection \<open>Adding the totals of a day to the totals of the week\<close>

lemma add_day_alt: "add_day w tot = foldl (\<lambda>w p. add_to w (fst p) (snd p)) w tot"
  by (simp add: add_day_def split_def)

lemma pairs_at_key:
  "distinct (map fst ob) \<Longrightarrow>
     filter (\<lambda>p. fst p = t) ob = (case map_of ob t of None \<Rightarrow> [] | Some v \<Rightarrow> [(t, v)])"
proof (induction ob)
  case Nil
  then show ?case by simp
next
  case (Cons p ob)
  obtain k v where p: "p = (k, v)" by (cases p)
  show ?case
  proof (cases "k = t")
    case True
    then have "t \<notin> fst ` set ob" using Cons.prems p by auto
    then have "filter (\<lambda>p. fst p = t) ob = []"
      by (rule filter_key_absent)
    with True p show ?thesis by simp
  next
    case False
    with Cons p show ?thesis by simp
  qed
qed

text \<open>
  Seen from a tag that names no inherited property, and that holds a number in the
  totals of the day and in those of the week: the minutes of the day are added to
  those of the week.
\<close>

lemma add_day_lookup:
  assumes "t \<notin> set inheritedKeys" and "distinct (map fst tot)"
    and "map_of tot t = None \<or> (\<exists>n. map_of tot t = Some (Number (Num n)))"
    and "map_of w t = None \<or> (\<exists>m. map_of w t = Some (Number m))"
  shows "map_of (add_day w tot) t =
           (if map_of tot t = None then map_of w t
            else Some (Number (Num (minutes_of w t + minutes_of tot t))))"
proof -
  have v: "\<forall>p\<in>set tot. fst p = t \<longrightarrow> (\<exists>n. snd p = Number (Num n))"
  proof (intro ballI impI)
    fix p assume p: "p \<in> set tot" and k: "fst p = t"
    then have "map_of tot t = Some (snd p)"
      using assms(2) by (metis map_of_is_SomeI prod.collapse)
    with assms(3) show "\<exists>n. snd p = Number (Num n)" by auto
  qed
  have keys: "t \<in> fst ` set tot \<longleftrightarrow> map_of tot t \<noteq> None"
    by (simp add: map_of_eq_None_iff)
  have look: "map_of (add_day w tot) t =
      (if t \<in> fst ` set tot
       then Some (Number (Num (minutes_of w t +
              sum_list (map (\<lambda>p. num_of (to_number (snd p))) (filter (\<lambda>p. fst p = t) tot)))))
       else map_of w t)"
    unfolding add_day_alt by (rule foldl_add_to_lookup[OF assms(1) v assms(4)])
  show ?thesis
  proof (cases "map_of tot t")
    case None
    with look keys show ?thesis by simp
  next
    case (Some u)
    with assms(3) obtain n where u: "u = Number (Num n)" by auto
    have "sum_list (map (\<lambda>p. num_of (to_number (snd p))) (filter (\<lambda>p. fst p = t) tot)) =
        minutes_of tot t"
      unfolding pairs_at_key[OF assms(2)] by (simp add: Some u minutes_of_def)
    with look keys Some show ?thesis by simp
  qed
qed

lemma add_day_distinct: "distinct (map fst w) \<Longrightarrow> distinct (map fst (add_day w tot))"
  by (simp add: add_day_alt foldl_add_to_distinct)

lemma week_distinct:
  "distinct (map fst w) \<Longrightarrow> distinct (map fst (foldl (\<lambda>w d. add_day w (T d)) w ds))"
  by (induction ds arbitrary: w) (simp_all add: add_day_distinct)

lemma week_lookup:
  assumes "t \<notin> set inheritedKeys"
    and "\<forall>d\<in>set ds. distinct (map fst (T d)) \<and>
           (map_of (T d) t = None \<or> (\<exists>n. map_of (T d) t = Some (Number (Num n))))"
    and "map_of w t = None \<or> (\<exists>m. map_of w t = Some (Number m))"
  shows "map_of (foldl (\<lambda>w d. add_day w (T d)) w ds) t =
           (if \<forall>d\<in>set ds. map_of (T d) t = None then map_of w t
            else Some (Number (Num (minutes_of w t + (\<Sum>d\<leftarrow>ds. minutes_of (T d) t)))))"
  using assms(2,3)
proof (induction ds arbitrary: w)
  case Nil
  then show ?case by simp
next
  case (Cons d ds)
  from Cons.prems(1) have dd: "distinct (map fst (T d))"
    and dn: "map_of (T d) t = None \<or> (\<exists>n. map_of (T d) t = Some (Number (Num n)))"
    and rest: "\<forall>d\<in>set ds. distinct (map fst (T d)) \<and>
           (map_of (T d) t = None \<or> (\<exists>n. map_of (T d) t = Some (Number (Num n))))"
    by (simp_all del: map_of_eq_Some_iff)
  let ?w = "add_day w (T d)"
  note step = add_day_lookup[OF assms(1) dd dn Cons.prems(2)]
  have inv: "map_of ?w t = None \<or> (\<exists>m. map_of ?w t = Some (Number m))"
    using step Cons.prems(2) by (cases "map_of (T d) t = None") auto
  have m: "minutes_of ?w t = minutes_of w t + minutes_of (T d) t"
  proof (cases "map_of (T d) t = None")
    case True
    with step show ?thesis by (simp add: minutes_of_def)
  next
    case False
    with step show ?thesis by (simp add: minutes_of_def[of ?w])
  qed
  note IH = Cons.IH[OF rest inv]
  show ?case
  proof (cases "map_of (T d) t = None")
    case True
    with IH step m show ?thesis by simp
  next
    case False
    have "map_of (foldl (\<lambda>w d. add_day w (T d)) ?w ds) t =
        Some (Number (Num (minutes_of ?w t + (\<Sum>d\<leftarrow>ds. minutes_of (T d) t))))"
    proof (cases "\<forall>d\<in>set ds. map_of (T d) t = None")
      case True
      then have "\<forall>d\<in>set ds. minutes_of (T d) t = 0" by (simp add: minutes_of_def)
      then have "(\<Sum>d\<leftarrow>ds. minutes_of (T d) t) = 0"
        by (induction ds) simp_all
      with IH True step False m show ?thesis by simp
    next
      case False
      with IH show ?thesis by simp
    qed
    with False m show ?thesis by (auto simp: add.assoc)
  qed
qed

subsection \<open>From the totals to the averages\<close>

lemma averages_lookup:
  assumes "distinct (map fst W)" and "t \<noteq> ''__proto__''"
  shows "map_of (foldl (\<lambda>averages (t, total). obj_set t (f total) averages) a W) t =
     (case map_of W t of Some v \<Rightarrow> Some (f v) | None \<Rightarrow> map_of a t)"
  using assms(1)
proof (induction W arbitrary: a)
  case Nil
  then show ?case by simp
next
  case (Cons p W)
  obtain k v where p: "p = (k, v)" by (cases p)
  have d: "distinct (map fst W)" and k: "k \<notin> fst ` set W"
    using Cons.prems p by auto
  have none: "map_of W k = None"
    using k by (simp add: map_of_eq_None_iff)
  show ?case
    using Cons.IH[OF d, of "obj_set k (f v) a"] none assms(2)
    by (auto simp: p map_of_obj_set split: option.splits)
qed

lemma getWeeklyAverages_alt:
  assumes "last7Days eng now = Inr days"
  shows "getWeeklyAverages eng now es =
     Inr (foldl (\<lambda>averages (t, total).
                   obj_set t (Number (Math_round_div (to_number total) 7)) averages) []
            (foldl (\<lambda>w d. add_day w (getTotalsByTag es d)) [] days))"
  by (simp add: getWeeklyAverages_def assms add_day_def)

lemma minutes_of_getTotalsByTag:
  assumes "t \<notin> set inheritedKeys" and "\<forall>e\<in>set es. tag e = t \<longrightarrow> duration e \<noteq> NaN"
  shows "minutes_of (getTotalsByTag es d) t =
           (\<Sum>e\<leftarrow>filter (\<lambda>e. tag e = t) (getEntriesForDate es d). num_of (duration e))"
    and "map_of (getTotalsByTag es d) t = None \<or>
           (\<exists>n. map_of (getTotalsByTag es d) t = Some (Number (Num n)))"
    and "map_of (getTotalsByTag es d) t = None \<longleftrightarrow> t \<notin> tag ` set (getEntriesForDate es d)"
proof -
  have h: "\<forall>e\<in>set (getEntriesForDate es d). tag e = t \<longrightarrow> duration e \<noteq> NaN"
    using assms(2) by (simp add: getEntriesForDate_def)
  note look = getTotalsByTag_lookup[OF assms(1) h]
  show "minutes_of (getTotalsByTag es d) t =
      (\<Sum>e\<leftarrow>filter (\<lambda>e. tag e = t) (getEntriesForDate es d). num_of (duration e))"
    by (simp add: minutes_of_def[of "getTotalsByTag es d"] look filter_key_absent)
  show "map_of (getTotalsByTag es d) t = None \<or>
      (\<exists>n. map_of (getTotalsByTag es d) t = Some (Number (Num n)))"
    by (simp add: look)
  show "map_of (getTotalsByTag es d) t = None \<longleftrightarrow> t \<notin> tag ` set (getEntriesForDate es d)"
    by (simp add: look)
qed

text \<open>
  The divisor.  Whatever the window is (the list of dates built from the clock, a
  date counting as often as the list holds it), for a tag that names no inherited
  property and whose durations are numbers, the average is the sum over the dates of
  the list of the minutes of the tag on that date, divided by 7 and rounded to the
  nearest minute, however many of the dates have entries of the tag; the tag has an
  average exactly when it occurs on a date of the list.
\<close>

lemma getWeeklyAverages_seventh_plain:
  assumes "last7Days eng now = Inr days"
    and "t \<notin> set inheritedKeys" and "\<forall>e\<in>set es. tag e = t \<longrightarrow> duration e \<noteq> NaN"
  shows "\<exists>averages. getWeeklyAverages eng now es = Inr averages \<and>
           map_of averages t =
             (if \<forall>d\<in>set days. t \<notin> tag ` set (getEntriesForDate es d) then None
              else Some (Number (Math_round_div
                     (Num (\<Sum>d\<leftarrow>days. \<Sum>e\<leftarrow>filter (\<lambda>e. tag e = t) (getEntriesForDate es d).
                                        num_of (duration e))) 7)))"
proof -
  let ?T = "getTotalsByTag es"
  let ?W = "foldl (\<lambda>w d. add_day w (?T d)) [] days"
  note T = minutes_of_getTotalsByTag[OF assms(2,3)]
  have p: "t \<noteq> ''__proto__''" using assms(2) proto_inherited by auto
  have Td: "\<forall>d\<in>set days. distinct (map fst (?T d)) \<and>
      (map_of (?T d) t = None \<or> (\<exists>n. map_of (?T d) t = Some (Number (Num n))))"
    using getTotalsByTag_distinct T(2) by blast
  have W: "map_of ?W t =
      (if \<forall>d\<in>set days. map_of (?T d) t = None then None
       else Some (Number (Num (\<Sum>d\<leftarrow>days. minutes_of (?T d) t))))"
    using week_lookup[OF assms(2) Td, of "[]"] by (simp add: minutes_of_def)
  have Wd: "distinct (map fst ?W)" by (rule week_distinct) simp
  have "map_of (foldl (\<lambda>averages (t, total).
            obj_set t (Number (Math_round_div (to_number total) 7)) averages) [] ?W) t =
      (if \<forall>d\<in>set days. map_of (?T d) t = None then None
       else Some (Number (Math_round_div (Num (\<Sum>d\<leftarrow>days. minutes_of (?T d) t)) 7)))"
    unfolding averages_lookup[OF Wd p] W by simp
  then show ?thesis
    unfolding getWeeklyAverages_alt[OF assms(1)] by (simp add: T(1) T(3))
qed

subsection \<open>Sample weeks\<close>

lemma january_days:
  "Day 1704700000000 = 19730" "Day 1704750000000 = 19730"
  "isoDate 19730 = ''2024-01-08''" "isoDate 19729 = ''2024-01-07''"
  "isoDate 19728 = ''2024-01-06''" "isoDate 19727 = ''2024-01-05''"
  "isoDate 19726 = ''2024-01-04''" "isoDate 19725 = ''2024-01-03''"
  "isoDate 19724 = ''2024-01-02''"
  by code_simp+

lemma march_days:
  "Day 1709294400000 = 19783"
  "isoDate 19783 = ''2024-03-01''" "isoDate 19782 = ''2024-02-29''"
  "isoDate 19781 = ''2024-02-28''" "isoDate 19780 = ''2024-02-27''"
  "isoDate 19779 = ''2024-02-26''" "isoDate 19778 = ''2024-02-25''"
  "isoDate 19777 = ''2024-02-24''"
  "isoDate 19794 = ''2024-03-12''" "isoDate 19793 = ''2024-03-11''"
  "isoDate 19792 = ''2024-03-10''" "isoDate 19791 = ''2024-03-09''"
  "isoDate 19790 = ''2024-03-08''" "isoDate 19789 = ''2024-03-07''"
  by code_simp+

lemma november_days:
  "Day 1730680200000 = 20031" "Day 1730721600000 = 20031"
  "isoDate 20031 = ''2024-11-04''" "isoDate 20030 = ''2024-11-03''"
  "isoDate 20029 = ''2024-11-02''" "isoDate 20028 = ''2024-11-01''"
  "isoDate 20027 = ''2024-10-31''" "isoDate 20026 = ''2024-10-30''"
  "isoDate 20025 = ''2024-10-29''" "isoDate 20024 = ''2024-10-28''"
  by code_simp+

lemma utc_window:
  assumes "- 8640000000000000 \<le> now - 6 * msPerDay" and "now \<le> 8640000000000000"
  shows "last7Days utc_engine now = Inr (map (\<lambda>i. isoDate (Day now - i)) [6, 5, 4, 3, 2, 1, 0])"
  by (rule last7Days_steady[OF steady_utc assms])

lemma january_window:
  "last7Days utc_engine 1704700000000 =
     Inr [''2024-01-02'', ''2024-01-03'', ''2024-01-04'', ''2024-01-05'', ''2024-01-06'',
          ''2024-01-07'', ''2024-01-08'']"
  by (subst utc_window) (simp_all add: msPerDay_def january_days)

lemma march_window:
  "last7Days utc_engine 1709294400000 =
     Inr [''2024-02-24'', ''2024-02-25'', ''2024-02-26'', ''2024-02-27'', ''2024-02-28'',
          ''2024-02-29'', ''2024-03-01'']"
  by (subst utc_window) (simp_all add: msPerDay_def march_days)

text \<open>
  New York, 2024-03-12 at 19:30 local time (23:30 UTC), two days after the clocks
  went forward: the local dates 03-09 at 19:30 (5 hours behind UTC) and 03-10 at
  19:30 (4 hours behind) both print as the UTC date 03-10, and 03-06 is not reached.
\<close>

lemma new_york_march_window:
  "last7Days new_york_2024 1710286200000 =
     Inr [''2024-03-07'', ''2024-03-08'', ''2024-03-09'', ''2024-03-10'', ''2024-03-10'',
          ''2024-03-11'', ''2024-03-12'']"
  by (simp add: last7Days_def setDate_plus_def LocalTime_def UTC_def TimeClip_def
      new_york_2024_def standard_engine_def new_york_utc_def new_york_local_def Day_def
      msPerDay_def march_days)

text \<open>
  New York, 2024-11-03 at 19:30 local time (2024-11-04 00:30 UTC), on the day the
  clocks went back: the local date 11-03 at 19:30 prints as the UTC date 11-04, the
  local date 11-02 at 19:30 as 11-02, and no date of the window is 11-03.  At 07:00
  local time of the next morning (12:00 UTC of the same UTC day) the window is the
  seven days from 10-29 to 11-04.
\<close>

lemma new_york_november_window:
  "last7Days new_york_2024 1730680200000 =
     Inr [''2024-10-28'', ''2024-10-29'', ''2024-10-30'', ''2024-10-31'', ''2024-11-01'',
          ''2024-11-02'', ''2024-11-04'']"
  "last7Days new_york_2024 1730721600000 =
     Inr [''2024-10-29'', ''2024-10-30'', ''2024-10-31'', ''2024-11-01'', ''2024-11-02'',
          ''2024-11-03'', ''2024-11-04'']"
  by (simp_all add: last7Days_def setDate_plus_def LocalTime_def UTC_def TimeClip_def
      new_york_2024_def standard_engine_def new_york_utc_def new_york_local_def Day_def
      msPerDay_def november_days)

lemma sample_totals:
  "getTotalsByTag sample_entries ''2024-01-05'' =
     [(''Sleep'', Number (Num 45)), (''Productive'', Number (Num 140))]"
  "getTotalsByTag sample_entries ''2024-01-06'' = [(''Transit'', Number (Num 5))]"
  "getTotalsByTag sample_entries ''2024-01-02'' = []"
  "getTotalsByTag sample_entries ''2024-01-03'' = []"
  "getTotalsByTag sample_entries ''2024-01-04'' = []"
  "getTotalsByTag sample_entries ''2024-01-07'' = []"
  "getTotalsByTag sample_entries ''2024-01-08'' = []"
  by code_simp+


lemma sample_averages_march:
  "getWeeklyAverages utc_engine 1709294400000 sample_entries = Inr []"
proof -
  have "getTotalsByTag sample_entries d = []"
    if "d \<in> set [''2024-02-24'', ''2024-02-25'', ''2024-02-26'', ''2024-02-27'', ''2024-02-28'',
          ''2024-02-29'', ''2024-03-01'']" for d
    using that
    by (auto simp: getTotalsByTag_def getEntriesForDate_def sample_entries_def)
  then show ?thesis
    unfolding getWeeklyAverages_def march_window by simp
qed

subsection \<open>The divisor\<close>

text \<open>
  C4, as the code has it: it fails.  In New York on 2024-03-12 at 19:30, for a single
  entry of 140 minutes dated 2024-03-10, the window holds the date 2024-03-10 twice,
  the 140 minutes are added twice, and the average is 40 where the claim has 20.  And
  for an entry of 140 minutes whose tag is \<open>constructor\<close>, on a day of the window of
  a zone without daylight-saving time, the totals are strings (the lookup finds the
  inherited function) and the average is \<open>NaN\<close>.  With the tag \<open>Productive\<close> the
  same entry averages 20.  The database-backed tracker builds the same window, and an
  entry of 140 minutes that starts on 2024-03-10 averages 40 there too.
\<close>

theorem weekly_average_counts_a_date_twice:
  "last7Days new_york_2024 1710286200000 =
     Inr [''2024-03-07'', ''2024-03-08'', ''2024-03-09'', ''2024-03-10'', ''2024-03-10'',
          ''2024-03-11'', ''2024-03-12''] \<and>
   getTotalsByTag [work140 ''2024-03-10'' ''Productive''] ''2024-03-10'' =
     [(''Productive'', Number (Num 140))] \<and>
   getWeeklyAverages new_york_2024 1710286200000 [work140 ''2024-03-10'' ''Productive''] =
     Inr [(''Productive'', Number (Num 40))] \<and>
   getWeeklyAverages utc_engine 1704700000000 [work140 ''2024-01-05'' ''constructor''] =
     Inr [(''constructor'', Number NaN)] \<and>
   getWeeklyAverages utc_engine 1704700000000 [work140 ''2024-01-05'' ''Productive''] =
     Inr [(''Productive'', Number (Num 20))] \<and>
   getWeeklyAverages_db new_york_2024 1710286200000 [db_sample 1710064800000 140 ''Productive''] =
     Inr [(''Productive'', Number (Num 40))]"
proof -
  have a: "getTotalsByTag [work140 ''2024-03-10'' ''Productive''] ''2024-03-10'' =
      [(''Productive'', Number (Num 140))]"
    by code_simp
  have b: "getWeeklyAverages new_york_2024 1710286200000 [work140 ''2024-03-10'' ''Productive''] =
      Inr [(''Productive'', Number (Num 40))]"
    unfolding getWeeklyAverages_def new_york_march_window
    by (simp add: getTotalsByTag_def getEntriesForDate_def work140_def add_to_def obj_get_def
        obj_set_def inheritedKeys_def)
  have c: "getWeeklyAverages utc_engine 1704700000000 [work140 ''2024-01-05'' ''constructor''] =
      Inr [(''constructor'', Number NaN)]"
    unfolding getWeeklyAverages_def january_window
    by (simp add: getTotalsByTag_def getEntriesForDate_def work140_def add_to_def obj_get_def
        obj_set_def inheritedKeys_def)
  have d: "getWeeklyAverages utc_engine 1704700000000 [work140 ''2024-01-05'' ''Productive''] =
      Inr [(''Productive'', Number (Num 20))]"
    unfolding getWeeklyAverages_def january_window
    by (simp add: getTotalsByTag_def getEntriesForDate_def work140_def add_to_def obj_get_def
        obj_set_def inheritedKeys_def)
  have e: "getWeeklyAverages_db new_york_2024 1710286200000
        [db_sample 1710064800000 140 ''Productive''] =
      Inr [(''Productive'', Number (Num 40))]"
    unfolding getWeeklyAverages_db_def new_york_march_window
    by (simp add: getTotalsByCategory_def db_sample_def categoryName_def Day_def msPerDay_def
        march_days add_to_def obj_get_def obj_set_def inheritedKeys_def)
  from new_york_march_window a b c d e show ?thesis by blast
qed

subsection \<open>The window\<close>

text \<open>
  C5, as the code has it.  \<open>getWeeklyAverages\<close> takes no reference date from its
  caller: it reads the clock.  For every entry list and clock reading (with the 6
  days before it within the range of a \<open>Date\<close>), in a zone that keeps its offset
  during the 6 days up to the reading, the window it aggregates over is the UTC
  calendar date of the reading together with the 6 calendar days before it: 7
  different dates in ascending order, and only entries dated within them bear on the
  result.  For a reading from 1970-01-07 to the end of the year 9999 the dates have
  4-digit years and read back as the days \<open>Day now - 6\<close> to \<open>Day now\<close>.
\<close>

theorem weekly_window:
  assumes "- 8640000000000000 \<le> now - 6 * msPerDay" and "now \<le> 8640000000000000"
    and "steady eng c (now - 6 * msPerDay) now"
  shows "last7Days eng now = Inr (map (\<lambda>i. isoDate (Day now - i)) [6, 5, 4, 3, 2, 1, 0]) \<and>
         distinct (map (\<lambda>i. isoDate (Day now - i)) [6, 5, 4, 3, 2, 1, 0]) \<and>
         getWeeklyAverages eng now es =
           getWeeklyAverages eng now
             (filter (\<lambda>e. date e \<in> set (map (\<lambda>i. isoDate (Day now - i)) [6, 5, 4, 3, 2, 1, 0])) es) \<and>
         (518400000 \<le> now \<and> now < 253402300800000 \<longrightarrow>
            map parseDate (map (\<lambda>i. isoDate (Day now - i)) [6, 5, 4, 3, 2, 1, 0]) =
              map (\<lambda>i. Some (Day now - i)) [6, 5, 4, 3, 2, 1, 0])"
proof -
  have range: "\<bar>now\<bar> \<le> 8640000000000000"
    using assms(1,2) by (simp add: msPerDay_def)
  have w: "last7Days eng now = Inr (map (\<lambda>i. isoDate (Day now - i)) [6, 5, 4, 3, 2, 1, 0])"
    by (rule last7Days_steady[OF assms(3) assms(1) assms(2)])
  from w getWeeklyAverages_window[OF w, of es] distinct_week[OF range] week_days_parse[of now]
  show ?thesis by blast
qed

theorem weekly_window_witness:
  "Day 1704700000000 = 19730 \<and> isoDate 19730 = ''2024-01-08'' \<and> isoDate 19724 = ''2024-01-02'' \<and>
   last7Days new_york_2024 1704700000000 =
     Inr [''2024-01-02'', ''2024-01-03'', ''2024-01-04'', ''2024-01-05'', ''2024-01-06'',
          ''2024-01-07'', ''2024-01-08''] \<and>
   map parseDate [''2024-01-02'', ''2024-01-03'', ''2024-01-04'', ''2024-01-05'', ''2024-01-06'',
          ''2024-01-07'', ''2024-01-08''] =
     [Some 19724, Some 19725, Some 19726, Some 19727, Some 19728, Some 19729, Some 19730]"
proof -
  have r: "- 8640000000000000 \<le> 1704700000000 - 6 * msPerDay"
    "(1704700000000 :: int) \<le> 8640000000000000"
    by (simp_all add: msPerDay_def)
  have z: "steady new_york_2024 (- 18000000) (1704700000000 - 6 * msPerDay) 1704700000000"
    by (rule steady_new_york_winter) simp
  note window = weekly_window[OF r z, of sample_entries]
  from window
  have "last7Days new_york_2024 1704700000000 =
      Inr (map (\<lambda>i. isoDate (Day 1704700000000 - i)) [6, 5, 4, 3, 2, 1, 0])"
    by blast
  then have w: "last7Days new_york_2024 1704700000000 =
     Inr [''2024-01-02'', ''2024-01-03'', ''2024-01-04'', ''2024-01-05'', ''2024-01-06'',
          ''2024-01-07'', ''2024-01-08'']"
    unfolding january_days(1) by (simp add: january_days)
  from window have "map parseDate (map (\<lambda>i. isoDate (Day 1704700000000 - i)) [6, 5, 4, 3, 2, 1, 0]) =
      map (\<lambda>i. Some (Day 1704700000000 - i)) [6, 5, 4, 3, 2, 1, 0]"
    by simp
  then have p: "map parseDate [''2024-01-02'', ''2024-01-03'', ''2024-01-04'', ''2024-01-05'',
      ''2024-01-06'', ''2024-01-07'', ''2024-01-08''] =
     [Some 19724, Some 19725, Some 19726, Some 19727, Some 19728, Some 19729, Some 19730]"
    unfolding january_days(1) by (simp add: january_days)
  from w p january_days show ?thesis by blast
qed

text \<open>
  C5 as stated fails: a date that the caller holds does not set the window.  With
  2024-01-05 selected, a day with 185 minutes of entries, and the clock on 2024-03-01,
  the window is the week up to 2024-03-01, the selected date is not in it, and the
  averages are empty.  And where the offset of the zone changes within the week, the
  window is not the 7 days up to the date of the clock: in New York on 2024-11-03 at
  19:30 it has no 2024-11-03 (and no local date prints as it).
\<close>

theorem window_follows_the_clock:
  "getTotalsByTag sample_entries ''2024-01-05'' =
     [(''Sleep'', Number (Num 45)), (''Productive'', Number (Num 140))] \<and>
   last7Days utc_engine 1709294400000 =
     Inr [''2024-02-24'', ''2024-02-25'', ''2024-02-26'', ''2024-02-27'', ''2024-02-28'',
          ''2024-02-29'', ''2024-03-01''] \<and>
   getWeeklyAverages utc_engine 1709294400000 sample_entries = Inr [] \<and>
   last7Days new_york_2024 1730680200000 =
     Inr [''2024-10-28'', ''2024-10-29'', ''2024-10-30'', ''2024-10-31'', ''2024-11-01'',
          ''2024-11-02'', ''2024-11-04'']"
  by (simp add: sample_totals march_window sample_averages_march new_york_november_window)

subsection \<open>What the results depend on\<close>





section \<open>Properties of adding an entry\<close>

subsection \<open>Sorting by a numeric key\<close>

lemma mset_insert_by: "mset (insert_by cmp x ys) = add_mset x (mset ys)"
  by (induction ys) simp_all

lemma mset_js_sort: "mset (js_sort cmp xs) = mset xs"
  by (induction xs) (simp_all add: mset_insert_by)

lemma set_insert_by: "set (insert_by cmp x ys) = insert x (set ys)"
  using mset_insert_by[of cmp x ys, THEN arg_cong, of set_mset] by simp

lemma set_js_sort: "set (js_sort cmp xs) = set xs"
  using mset_js_sort[of cmp xs, THEN arg_cong, of set_mset] by simp

lemma sorted_insert_by:
  assumes "\<forall>a\<in>set (x # ys). f a \<noteq> NaN"
    and "sorted (map (\<lambda>a. num_of (f a)) ys)"
  shows "sorted (map (\<lambda>a. num_of (f a)) (insert_by (\<lambda>a b. js_sub (f a) (f b)) x ys))"
  using assms
proof (induction ys)
  case Nil
  then show ?case by simp
next
  case (Cons y ys)
  from Cons.prems(1) obtain m n where x: "f x = Num m" and y: "f y = Num n"
    by (cases "f x"; cases "f y") auto
  show ?case
  proof (cases "n < m")
    case True
    have "sorted (map (\<lambda>a. num_of (f a)) (insert_by (\<lambda>a b. js_sub (f a) (f b)) x ys))"
      using Cons by simp
    moreover have "\<forall>a\<in>set (insert_by (\<lambda>a b. js_sub (f a) (f b)) x ys). n \<le> num_of (f a)"
      using Cons.prems(2) True x y by (auto simp: set_insert_by)
    ultimately show ?thesis using True x y by simp
  next
    case False
    with Cons.prems(2) x y show ?thesis by auto
  qed
qed

lemma sorted_js_sort:
  assumes "\<forall>a\<in>set xs. f a \<noteq> NaN"
  shows "sorted (map (\<lambda>a. num_of (f a)) (js_sort (\<lambda>a b. js_sub (f a) (f b)) xs))"
  using assms
proof (induction xs)
  case Nil
  then show ?case by simp
next
  case (Cons x xs)
  have "\<forall>a\<in>set (x # js_sort (\<lambda>a b. js_sub (f a) (f b)) xs). f a \<noteq> NaN"
    using Cons.prems by (simp add: set_js_sort)
  then show ?case
    using Cons by (simp add: sorted_insert_by)
qed

lemma numeric_keys:
  assumes "\<forall>a\<in>set xs. f a \<noteq> NaN"
  shows "map f xs = map Num (map (\<lambda>a. num_of (f a)) xs)"
  using assms
proof (induction xs)
  case Nil
  then show ?case by simp
next
  case (Cons x xs)
  then obtain n where "f x = Num n" by (cases "f x") auto
  with Cons show ?case by simp
qed

subsection \<open>The entries after \<open>addEntry\<close>\<close>

text \<open>
  With the four form fields filled in, \<open>addEntry\<close> succeeds.  When every entry,
  the new one included, has a date and a start time of which \<open>new Date\<close> makes a
  valid date, the stored list afterwards is in non-decreasing order of these
  timestamps, whatever its order was before, and it holds the earlier entries and
  the new one.
\<close>

lemma addEntry_sorted_if_valid:
  assumes "startTime st \<noteq> []" and "endTime st \<noteq> []"
    and "descriptionInput st \<noteq> []" and "tagInput st \<noteq> []"
    and "\<forall>e\<in>set (entries st). entryTime eng e \<noteq> NaN"
    and "Date_parse eng (selectedDate st @ ''T'' @ startTime st) \<noteq> NaN"
  shows "\<exists>st' new ts. addEntry eng stamp st = Inr st' \<and>
           map (entryTime eng) (entries st') = map Num ts \<and> sorted ts \<and>
           mset (entries st') = add_mset new (mset (entries st)) \<and>
           date new = selectedDate st \<and> start new = startTime st"
proof -
  let ?new = "\<lparr>entry_id = stamp, date = selectedDate st, start = startTime st,
      endT = endTime st,
      duration = calculateDuration eng (selectedDate st) (startTime st) (endTime st),
      description = descriptionInput st, tag = tagInput st\<rparr>"
  let ?sorted = "js_sort (byStart eng) (entries st @ [?new])"
  let ?st' = "st\<lparr>entries := ?sorted, startTime := [], endTime := [],
      descriptionInput := [], tagInput := []\<rparr>"
  have run: "addEntry eng stamp st = Inr ?st'"
    using assms(1-4) by (simp add: addEntry_def Let_def)
  have cmp: "byStart eng = (\<lambda>a b. js_sub (entryTime eng a) (entryTime eng b))"
    by (simp add: byStart_def fun_eq_iff)
  have "entryTime eng ?new \<noteq> NaN"
    using assms(6) by (simp add: entryTime_def)
  with assms(5) have valid: "\<forall>e\<in>set (entries st @ [?new]). entryTime eng e \<noteq> NaN"
    by simp
  then have valid': "\<forall>e\<in>set ?sorted. entryTime eng e \<noteq> NaN"
    by (simp only: set_js_sort)
  have s: "sorted (map (\<lambda>a. num_of (entryTime eng a)) ?sorted)"
    unfolding cmp by (rule sorted_js_sort[OF valid])
  have k: "map (entryTime eng) ?sorted = map Num (map (\<lambda>a. num_of (entryTime eng a)) ?sorted)"
    by (rule numeric_keys[OF valid'])
  have m: "mset ?sorted = add_mset ?new (mset (entries st))"
    by (simp add: mset_js_sort)
  have e: "entries ?st' = ?sorted" by simp
  have "date ?new = selectedDate st \<and> start ?new = startTime st" by simp
  with run s k m e show ?thesis by metis
qed

text \<open>
  C10, as the code has it: it fails.  \<open>addEntry\<close> checks the four fields of the form
  but not the selected date, which is empty when the date input has been cleared.
  From the empty list: an entry is added on 2024-01-02; the date is cleared and a
  second entry is added, which succeeds and stores the date \<open>''\<close> and the duration
  \<open>NaN\<close>; 2024-01-01 is selected and a third entry is added.  The comparator gives
  \<open>NaN\<close> against the entry without a date, the sort moves nothing, and the stored
  list has the entry of 2024-01-02 before the entry of 2024-01-01.
\<close>

theorem addEntry_unsorted_after_cleared_date:
  "addEntry utc_engine 1 (form_for [] ''2024-01-02'') =
     Inr (emptied [hour_entry 1 ''2024-01-02'' (Num 60)] ''2024-01-02'') \<and>
   addEntry utc_engine 2 (form_for [hour_entry 1 ''2024-01-02'' (Num 60)] '''') =
     Inr (emptied [hour_entry 1 ''2024-01-02'' (Num 60), hour_entry 2 '''' NaN] '''') \<and>
   addEntry utc_engine 3
       (form_for [hour_entry 1 ''2024-01-02'' (Num 60), hour_entry 2 '''' NaN] ''2024-01-01'') =
     Inr (emptied [hour_entry 1 ''2024-01-02'' (Num 60), hour_entry 2 '''' NaN,
                   hour_entry 3 ''2024-01-01'' (Num 60)] ''2024-01-01'') \<and>
   map (entryTime utc_engine)
       [hour_entry 1 ''2024-01-02'' (Num 60), hour_entry 2 '''' NaN,
        hour_entry 3 ''2024-01-01'' (Num 60)] =
     [Num 1704186000000, NaN, Num 1704099600000] \<and>
   js_lt (entryTime utc_engine (hour_entry 3 ''2024-01-01'' (Num 60)))
         (entryTime utc_engine (hour_entry 1 ''2024-01-02'' (Num 60)))"
  by code_simp

text \<open>With every date in place, a call leaves the list in order.\<close>

lemma addEntry_sample_sorted:
  "(case addEntry utc_engine 5 sample_state of
      Inl a \<Rightarrow> False
    | Inr st' \<Rightarrow> map entry_id (entries st') = [5, 3, 4, 1, 2])"
  by code_simp

end
